theory Spec2Isabelle
  imports Main "HOL-Library.AList"
begin

section \<open>Data model\<close>

text \<open>
  A sequence token is an opaque string. A change record is one entry of the remote change
  log, \<^verbatim>\<open>{seq, id, changes, deleted?, doc?}\<close>; the field \<^verbatim>\<open>id\<close> is called
  \<open>ident\<close> here, the revision markers and the document body are kept as text.
\<close>

type_synonym token = string

record change =
  seq :: token
  ident :: string
  changes :: "string list"
  deleted :: "bool option"
  doc :: "string option"

text \<open>
  The error object handed to the \<^verbatim>\<open>catch\<close> handler: \<^verbatim>\<open>err.response.status\<close>
  (absent when no response was received), \<^verbatim>\<open>err.reason\<close> and the
  \<^verbatim>\<open>statusCode\<close> that the handler assigns before it publishes the error.
\<close>

record error_obj =
  response_status :: "int option"
  reason :: "string option"
  statusCode :: "int option"

text \<open>
  The five named events of the event channel. A \<^verbatim>\<open>batch\<close> event carries the flag
  "an acknowledgment callback was passed along" (backpressure mode).
\<close>

datatype event =
    Change change
  | Batch "change list" bool
  | Seq token
  | Error error_obj
  | End token

section \<open>The batch accumulator (lib/changeprocessor.js)\<close>

text \<open>
  The transform stream owns a buffer of parsed records and the public field
  \<^verbatim>\<open>lastSeq\<close>, initially \<^verbatim>\<open>'0'\<close>. The events it publishes on the emitter it was
  given are returned as a list, oldest first.
\<close>

record processor =
  buffer :: "change list"
  lastSeq :: token

definition new_processor :: processor where
  "new_processor = \<lparr>buffer = [], lastSeq = ''0''\<rparr>"

text \<open>
  \<^verbatim>\<open>emit(data)\<close>: publish the batch, then read \<^verbatim>\<open>data[data.length - 1].seq\<close>.
  On an empty array that read is a property access on \<^verbatim>\<open>undefined\<close> and throws after
  the event went out; the third component says whether it threw.
\<close>

definition emit :: "change list \<Rightarrow> processor \<Rightarrow> event list \<times> processor \<times> bool" where
  "emit data p =
     (if data = [] then ([Batch data False], p, True)
      else ([Batch data False], p\<lparr>lastSeq := seq (last data)\<rparr>, False))"

text \<open>Dropping one trailing separator: \<^verbatim>\<open>if (chunk[chunk.length - 1] === ',') chunk = chunk.slice(0, -1)\<close>.\<close>

definition strip_separator :: "string \<Rightarrow> string" where
  "strip_separator chunk =
     (if chunk \<noteq> [] \<and> last chunk = CHR '','' then butlast chunk else chunk)"

text \<open>
  \<^verbatim>\<open>_transform(chunk, encoding, done)\<close>. The structured parser is the parameter
  \<open>parse\<close>: \<open>None\<close> when \<^verbatim>\<open>JSON.parse\<close> throws, otherwise the record it read.
  \<^verbatim>\<open>buffer.splice(0, batchSize)\<close> removes and returns at most \<open>batchSize\<close> elements
  from the front (none for a count below one). Both the \<^verbatim>\<open>try\<close> branch and the
  \<^verbatim>\<open>catch\<close> branch end in \<^verbatim>\<open>done()\<close> without an error, so the only result is the
  published events and the new state; an exception of \<open>emit\<close> is caught here as well.
\<close>

definition transform ::
  "(string \<Rightarrow> change option) \<Rightarrow> int \<Rightarrow> processor \<Rightarrow> string \<Rightarrow> event list \<times> processor" where
  "transform parse batchSize p chunk =
     (case parse (strip_separator chunk) of
        None \<Rightarrow> ([], p)
      | Some j \<Rightarrow>
          (let buf = buffer p @ [j] in
           if int (length buf) \<ge> batchSize
           then (case emit (take (nat batchSize) buf) (p\<lparr>buffer := drop (nat batchSize) buf\<rparr>) of
                   (evs, p', threw) \<Rightarrow> (evs, p'))
           else ([], p\<lparr>buffer := buf\<rparr>)))"

text \<open>\<^verbatim>\<open>_flush(done)\<close>: a non-empty buffer goes out as a last batch.\<close>

definition flush :: "processor \<Rightarrow> event list \<times> processor \<times> bool" where
  "flush p =
     (if length (buffer p) > 0 then emit (buffer p) (p\<lparr>buffer := []\<rparr>)
      else ([], p, False))"

text \<open>The stream machinery: every line goes through \<open>transform\<close> in order, then \<open>flush\<close>.\<close>

fun transform_all ::
  "(string \<Rightarrow> change option) \<Rightarrow> int \<Rightarrow> processor \<Rightarrow> string list \<Rightarrow> event list \<times> processor" where
  "transform_all parse batchSize p [] = ([], p)"
| "transform_all parse batchSize p (chunk # chunks) =
     (case transform parse batchSize p chunk of
        (evs, p') \<Rightarrow>
          (case transform_all parse batchSize p' chunks of
             (evs', p'') \<Rightarrow> (evs @ evs', p'')))"

definition changeProcessor ::
  "(string \<Rightarrow> change option) \<Rightarrow> int \<Rightarrow> string list \<Rightarrow> event list \<times> processor" where
  "changeProcessor parse batchSize chunks =
     (case transform_all parse batchSize new_processor chunks of
        (evs, p) \<Rightarrow> (case flush p of (evs', p', threw) \<Rightarrow> (evs @ evs', p')))"

text \<open>Reading a list of published events.\<close>

fun batches_of :: "event list \<Rightarrow> change list list" where
  "batches_of [] = []"
| "batches_of (Batch rs ack # evs) = rs # batches_of evs"
| "batches_of (ev # evs) = batches_of evs"

fun errors_of :: "event list \<Rightarrow> error_obj list" where
  "errors_of [] = []"
| "errors_of (Error e # evs) = e # errors_of evs"
| "errors_of (ev # evs) = errors_of evs"

text \<open>The records that the lines of a stream parse to, in order.\<close>

definition parsed_records :: "(string \<Rightarrow> change option) \<Rightarrow> string list \<Rightarrow> change list" where
  "parsed_records parse chunks = List.map_filter (\<lambda>c. parse (strip_separator c)) chunks"


section \<open>The reader session (index.js)\<close>

text \<open>
  Query-string values are strings, numbers or booleans. A selector is kept as text;
  \<open>None\<close> is the \<^verbatim>\<open>null\<close> that \<^verbatim>\<open>setDefaults\<close> stores.
\<close>

datatype pval = S string | N int | B bool

type_synonym selector = string

text \<open>
  Event emitters are objects with identity: an emitter is a number, and
  \<^verbatim>\<open>new EventEmitter()\<close> takes the next unused one from the counter \<open>next_ee\<close>.
\<close>

record session =
  db :: string
  couchURL :: string
  headers :: "(string \<times> string) list"
  ee :: nat
  next_ee :: nat
  batchSize :: int
  fastChanges :: bool
  since :: token
  includeDocs :: bool
  timeout :: int
  heartbeat :: int
  started :: bool
  wait :: bool
  stopOnEmptyChanges :: bool
  continue :: bool
  qs :: "(string \<times> pval) list"
  selector :: "selector option"

definition setDefaults :: "session \<Rightarrow> session" where
  "setDefaults s =
     s\<lparr>ee := next_ee s, next_ee := Suc (next_ee s), batchSize := 100, fastChanges := False,
       since := ''now'', includeDocs := False, timeout := 60000, heartbeat := 5000,
       started := False, wait := False, stopOnEmptyChanges := False, continue := True,
       qs := [], selector := None\<rparr>"

definition stop :: "session \<Rightarrow> session" where
  "stop s = s\<lparr>continue := False\<rparr>"

text \<open>
  The options object; \<open>None\<close> is a key that is not there.
  \<^verbatim>\<open>opts = opts || {}\<close> turns a missing argument into \<open>no_opts\<close>, and
  \<^verbatim>\<open>Object.assign(self, opts)\<close> copies every own key of the options onto the session:
  the documented ones, and just as well the internal flags \<^verbatim>\<open>started\<close>,
  \<^verbatim>\<open>continue\<close> and \<^verbatim>\<open>stopOnEmptyChanges\<close>, the emitter, the database name, the
  endpoint and the headers. The record has a key for every field of the session that the
  code reads; a key of any other name is copied too and never read.
\<close>

record opts =
  o_db :: "string option"
  o_couchURL :: "string option"
  o_headers :: "(string \<times> string) list option"
  o_ee :: "nat option"
  o_batchSize :: "int option"
  o_fastChanges :: "bool option"
  o_since :: "token option"
  o_includeDocs :: "bool option"
  o_timeout :: "int option"
  o_heartbeat :: "int option"
  o_started :: "bool option"
  o_wait :: "bool option"
  o_stopOnEmptyChanges :: "bool option"
  o_continue :: "bool option"
  o_qs :: "(string \<times> pval) list option"
  o_selector :: "selector option"

definition no_opts :: opts where
  "no_opts = \<lparr>o_db = None, o_couchURL = None, o_headers = None, o_ee = None,
              o_batchSize = None, o_fastChanges = None, o_since = None, o_includeDocs = None,
              o_timeout = None, o_heartbeat = None, o_started = None, o_wait = None,
              o_stopOnEmptyChanges = None, o_continue = None, o_qs = None,
              o_selector = None\<rparr>"

definition opts_or_empty :: "opts option \<Rightarrow> opts" where
  "opts_or_empty opts = (case opts of None \<Rightarrow> no_opts | Some cfg \<Rightarrow> cfg)"

definition assign_opts :: "session \<Rightarrow> opts \<Rightarrow> session" where
  "assign_opts s cfg =
     s\<lparr>db := (case o_db cfg of None \<Rightarrow> db s | Some v \<Rightarrow> v),
       couchURL := (case o_couchURL cfg of None \<Rightarrow> couchURL s | Some v \<Rightarrow> v),
       headers := (case o_headers cfg of None \<Rightarrow> headers s | Some v \<Rightarrow> v),
       ee := (case o_ee cfg of None \<Rightarrow> ee s | Some v \<Rightarrow> v),
       batchSize := (case o_batchSize cfg of None \<Rightarrow> batchSize s | Some v \<Rightarrow> v),
       fastChanges := (case o_fastChanges cfg of None \<Rightarrow> fastChanges s | Some v \<Rightarrow> v),
       since := (case o_since cfg of None \<Rightarrow> since s | Some v \<Rightarrow> v),
       includeDocs := (case o_includeDocs cfg of None \<Rightarrow> includeDocs s | Some v \<Rightarrow> v),
       timeout := (case o_timeout cfg of None \<Rightarrow> timeout s | Some v \<Rightarrow> v),
       heartbeat := (case o_heartbeat cfg of None \<Rightarrow> heartbeat s | Some v \<Rightarrow> v),
       started := (case o_started cfg of None \<Rightarrow> started s | Some v \<Rightarrow> v),
       wait := (case o_wait cfg of None \<Rightarrow> wait s | Some v \<Rightarrow> v),
       stopOnEmptyChanges :=
         (case o_stopOnEmptyChanges cfg of None \<Rightarrow> stopOnEmptyChanges s | Some v \<Rightarrow> v),
       continue := (case o_continue cfg of None \<Rightarrow> continue s | Some v \<Rightarrow> v),
       qs := (case o_qs cfg of None \<Rightarrow> qs s | Some v \<Rightarrow> v),
       selector := (case o_selector cfg of None \<Rightarrow> selector s | Some v \<Rightarrow> Some v)\<rparr>"

text \<open>
  \<^verbatim>\<open>Object.assign(target, source)\<close> on objects kept as key-value lists: each key of
  the source is overwritten in place or added at the end.
\<close>

definition assign :: "('k \<times> 'v) list \<Rightarrow> ('k \<times> 'v) list \<Rightarrow> ('k \<times> 'v) list" where
  "assign target source = fold (\<lambda>(k, v). AList.update k v) source target"

text \<open>
  The request. Its url is \<^verbatim>\<open>encodeURIComponent(self.db) + '/_changes'\<close>, a function of
  the database name, which is what the record keeps.
\<close>

record request =
  baseURL :: string
  url_db :: string
  http_method :: string
  params :: "(string \<times> pval) list"
  data_selector :: "selector option"
  req_headers :: "(string \<times> string) list"
  response_stream :: bool

definition longpoll_request :: "session \<Rightarrow> opts \<Rightarrow> request" where
  "longpoll_request s cfg =
     (let p0 = [(''feed'', S ''longpoll''), (''timeout'', N (timeout s)), (''since'', S (since s)),
                (''limit'', N (batchSize s)), (''include_docs'', B (includeDocs s))];
          p1 = (if fastChanges s then AList.update ''seq_interval'' (N (batchSize s)) p0 else p0);
          p2 = (if selector s \<noteq> None then AList.update ''filter'' (S ''_selector'') p1 else p1);
          p3 = (case o_qs cfg of None \<Rightarrow> p2 | Some q \<Rightarrow> assign p2 q)
      in \<lparr>baseURL = couchURL s, url_db = db s, http_method = ''post'', params = p3,
          data_selector = selector s, req_headers = headers s, response_stream = False\<rparr>)"

text \<open>What the environment does with one request.\<close>

record response_data =
  results :: "change list option"
  last_seq :: "token option"

datatype outcome = Resolved "response_data option" | Rejected error_obj

text \<open>
  One exchange of the script that drives a run: whether the consumer called
  \<^verbatim>\<open>stop()\<close> while the request was in flight, the milliseconds until the promise
  settled (the difference of the two \<^verbatim>\<open>getTS()\<close> readings), how it settled (the
  response body may be missing, and so may each of its two fields), and after how many
  milliseconds the consumer invokes the acknowledgment callback of a \<^verbatim>\<open>batch\<close>
  event (\<open>None\<close>: never).
\<close>

record exchange =
  stop_called :: bool
  latency :: int
  outcome :: outcome
  ack :: "int option"

text \<open>
  What a run does, in order: requests with the time they were issued, events with the
  emitter they were published on, and timers with their delay. Publishing an event is
  taken to return normally: listeners do not throw, and an \<^verbatim>\<open>error\<close> listener is
  attached.
\<close>

datatype action = Request int request | Emit nat event | SetTimeout int

text \<open>How an iteration hands control back: \<^verbatim>\<open>next(err)\<close> with a truthy or falsy argument, or never.\<close>

datatype continuation = Next bool | Never

subsection \<open>The success handler\<close>

definition has_results :: "response_data option \<Rightarrow> bool" where
  "has_results data =
     (case data of None \<Rightarrow> False
      | Some d \<Rightarrow> (case results d of None \<Rightarrow> False | Some rs \<Rightarrow> length rs > 0))"

definition results_array :: "response_data option \<Rightarrow> change list" where
  "results_array data =
     (case data of None \<Rightarrow> []
      | Some d \<Rightarrow> (case results d of None \<Rightarrow> [] | Some rs \<Rightarrow> rs))"

text \<open>Lines 107 to 112: one \<^verbatim>\<open>change\<close> event per element, by ascending index.\<close>

definition emit_changes :: "session \<Rightarrow> response_data option \<Rightarrow> action list" where
  "emit_changes s data =
     (if has_results data then map (\<lambda>c. Emit (ee s) (Change c)) (results_array data) else [])"

text \<open>
  Lines 115 to 118: \<^verbatim>\<open>data && data.last_seq && data.last_seq !== self.since\<close>; the
  empty string is falsy.
\<close>

definition update_since :: "session \<Rightarrow> response_data option \<Rightarrow> action list \<times> session" where
  "update_since s data =
     (case data of None \<Rightarrow> ([], s)
      | Some d \<Rightarrow>
          (case last_seq d of None \<Rightarrow> ([], s)
           | Some ls \<Rightarrow>
               if ls \<noteq> [] \<and> ls \<noteq> since s
               then ([Emit (ee s) (Seq ls)], s\<lparr>since := ls\<rparr>)
               else ([], s)))"

text \<open>Lines 121 to 123.\<close>

definition small_batch :: "session \<Rightarrow> response_data option \<Rightarrow> bool" where
  "small_batch s data =
     (case data of None \<Rightarrow> False
      | Some d \<Rightarrow> (case results d of None \<Rightarrow> False
                   | Some rs \<Rightarrow> stopOnEmptyChanges s \<and> int (length rs) < batchSize s))"

definition stop_on_small_batch :: "session \<Rightarrow> response_data option \<Rightarrow> session" where
  "stop_on_small_batch s data = (if small_batch s data then s\<lparr>continue := False\<rparr> else s)"

text \<open>
  \<^verbatim>\<open>setTimeout(callback, delay)\<close> of the runtime: a delay from 1 to 2147483647
  milliseconds is waited for, any other delay is replaced by 1 millisecond.
\<close>

definition TIMEOUT_MAX :: int where
  "TIMEOUT_MAX = 2147483647"

definition setTimeout_wait :: "int \<Rightarrow> int" where
  "setTimeout_wait delay = (if 1 \<le> delay \<and> delay \<le> TIMEOUT_MAX then delay else 1)"

text \<open>
  Lines 127 to 153: the \<^verbatim>\<open>batch\<close> event and the pacing. The result is the actions, the
  way \<^verbatim>\<open>next\<close> is reached and the milliseconds that pass until then.
\<close>

definition pace :: "session \<Rightarrow> int \<Rightarrow> action list \<times> continuation \<times> int" where
  "pace s timeSinceLastReq =
     (if timeSinceLastReq > timeout s then ([], Next False, 0)
      else ([SetTimeout (timeout s - timeSinceLastReq)], Next False,
            setTimeout_wait (timeout s - timeSinceLastReq)))"

definition emit_batch ::
  "session \<Rightarrow> response_data option \<Rightarrow> int \<Rightarrow> int option \<Rightarrow> action list \<times> continuation \<times> int" where
  "emit_batch s data timeSinceLastReq acked =
     (if wait s then
        (if has_results data then
           (case acked of
              None \<Rightarrow> ([Emit (ee s) (Batch (results_array data) True)], Never, 0)
            | Some d \<Rightarrow> ([Emit (ee s) (Batch (results_array data) True)], Next False, d))
         else pace s timeSinceLastReq)
      else
        (if has_results data then
           ([Emit (ee s) (Batch (results_array data) False)], Next False, 0)
         else if \<not> continue s then ([], Next False, 0)
         else pace s timeSinceLastReq))"

definition on_fulfilled ::
  "session \<Rightarrow> response_data option \<Rightarrow> int \<Rightarrow> int option
     \<Rightarrow> action list \<times> session \<times> continuation \<times> int" where
  "on_fulfilled s data timeSinceLastReq acked =
     (case update_since s data of
        (seq_acts, s1) \<Rightarrow>
          (let s2 = stop_on_small_batch s1 data in
           case emit_batch s2 data timeSinceLastReq acked of
             (batch_acts, k, dt) \<Rightarrow> (emit_changes s data @ seq_acts @ batch_acts, s2, k, dt)))"

subsection \<open>The failure handler\<close>

text \<open>\<^verbatim>\<open>(err.response && err.response.status) || 500\<close>: a missing status and the status 0 both give 500.\<close>

definition normalize_status :: "int option \<Rightarrow> int" where
  "normalize_status st = (case st of None \<Rightarrow> 500 | Some c \<Rightarrow> if c = 0 then 500 else c)"

definition is_fatal :: "error_obj \<Rightarrow> bool" where
  "is_fatal err =
     (case statusCode err of None \<Rightarrow> False
      | Some c \<Rightarrow> c \<noteq> 0 \<and> c \<ge> 400 \<and> c \<noteq> 429 \<and> c < 500)"

definition truthy :: "string option \<Rightarrow> bool" where
  "truthy v = (case v of None \<Rightarrow> False | Some str \<Rightarrow> str \<noteq> [])"

definition on_rejected :: "session \<Rightarrow> error_obj \<Rightarrow> action list \<times> session \<times> continuation \<times> int" where
  "on_rejected s err =
     (let err' = err\<lparr>statusCode := Some (normalize_status (response_status err))\<rparr> in
      if is_fatal err'
      then ([Emit (ee s) (Error err')], s\<lparr>continue := False\<rparr>, Next (truthy (reason err')), 0)
      else ([Emit (ee s) (Error err')], s, Next False, 0))"

subsection \<open>The polling loop\<close>

text \<open>
  One pass of the loop body: build and issue the request at time \<open>now\<close>, let the
  exchange happen, run the handler that fits. The last component is the time at which
  \<^verbatim>\<open>next\<close> is reached.
\<close>

definition iteratee ::
  "opts \<Rightarrow> int \<Rightarrow> session \<Rightarrow> exchange \<Rightarrow> action list \<times> session \<times> continuation \<times> int" where
  "iteratee cfg now s x =
     (let req = longpoll_request s cfg;
          s0 = (if stop_called x then stop s else s)
      in case (case outcome x of
                 Resolved data \<Rightarrow> on_fulfilled s0 data (latency x) (ack x)
               | Rejected err \<Rightarrow> on_rejected s0 err) of
           (acts, s', k, dt) \<Rightarrow> (Request now req # acts, s', k, now + latency x + dt))"

text \<open>
  The final callback of the loop: publish \<^verbatim>\<open>end\<close> with the cursor, then reset the
  session.
\<close>

definition finish :: "session \<Rightarrow> action list \<times> session" where
  "finish s = ([Emit (ee s) (End (since s))], setDefaults s)"

text \<open>
  \<^verbatim>\<open>async.doWhilst(iteratee, test, callback)\<close>, a library function, by its documented
  behaviour for the synchronous test \<^verbatim>\<open>() => self.continue\<close>: run the body; on
  \<^verbatim>\<open>next(err)\<close> with a truthy \<open>err\<close> call the callback, otherwise run the body again
  if the test holds and call the callback if not. The script says how each request in turn is answered; when it is used up the next
  request is out and unanswered. A run reports its actions, the session it leaves, how
  it stands, and how many exchanges of the script it used.
\<close>

datatype phase = Ended | Awaiting_response | Awaiting_ack | Attached

record run =
  trace :: "action list"
  session_after :: session
  phase :: phase
  consumed :: nat

fun doWhilst :: "opts \<Rightarrow> int \<Rightarrow> session \<Rightarrow> exchange list \<Rightarrow> run" where
  "doWhilst cfg now s [] =
     \<lparr>trace = [Request now (longpoll_request s cfg)], session_after = s,
      phase = Awaiting_response, consumed = 0\<rparr>"
| "doWhilst cfg now s (x # xs) =
     (case iteratee cfg now s x of
        (acts, s', k, now') \<Rightarrow>
          (case k of
             Never \<Rightarrow> \<lparr>trace = acts, session_after = s', phase = Awaiting_ack, consumed = 1\<rparr>
           | Next err \<Rightarrow>
               if err then
                 \<lparr>trace = acts @ fst (finish s'), session_after = snd (finish s'),
                  phase = Ended, consumed = 1\<rparr>
               else if continue s' then
                 (let r = doWhilst cfg now' s' xs
                  in r\<lparr>trace := acts @ trace r, consumed := Suc (consumed r)\<rparr>)
               else
                 \<lparr>trace = acts @ fst (finish s'), session_after = snd (finish s'),
                  phase = Ended, consumed = 1\<rparr>))"

text \<open>
  \<^verbatim>\<open>start(opts)\<close> at time \<open>now\<close>, with the script of the exchanges to come. The first
  component is the emitter it returns.
\<close>

definition start :: "session \<Rightarrow> opts option \<Rightarrow> int \<Rightarrow> exchange list \<Rightarrow> nat \<times> run" where
  "start s opts now script =
     (if started s then
        (ee s, \<lparr>trace = [], session_after = s, phase = Attached, consumed = 0\<rparr>)
      else
        (let cfg = opts_or_empty opts;
             s1 = assign_opts (s\<lparr>started := True\<rparr>) cfg;
             r = doWhilst cfg now s1 script
         in (ee s1, r)))"

definition get :: "session \<Rightarrow> opts option \<Rightarrow> int \<Rightarrow> exchange list \<Rightarrow> nat \<times> run" where
  "get s opts now script = start (s\<lparr>stopOnEmptyChanges := True\<rparr>) opts now script"

subsection \<open>Spooling\<close>

definition spool_request :: "session \<Rightarrow> request" where
  "spool_request s =
     (let p0 = [(''since'', S (since s)), (''include_docs'', B (includeDocs s)),
                (''seq_interval'', N (batchSize s))];
          p1 = (if selector s \<noteq> None then AList.update ''filter'' (S ''_selector'') p0 else p0)
      in \<lparr>baseURL = couchURL s, url_db = db s, http_method = ''post'', params = p1,
          data_selector = selector s, req_headers = headers s, response_stream = True\<rparr>)"

text \<open>
  The one request of \<^verbatim>\<open>spool\<close> is either rejected, or answered with a stream whose
  lines (as the line splitter hands them on) reach the accumulator. The promise has a
  \<^verbatim>\<open>then\<close> handler only. When the accumulator has finished, \<^verbatim>\<open>end\<close> follows after
  a timer of 10 milliseconds. The accumulator never passes an error to \<^verbatim>\<open>done\<close>, so
  its \<^verbatim>\<open>error\<close> listener is not reached.
\<close>

datatype stream_outcome = Stream_rejected error_obj | Streamed "string list"

definition spool ::
  "(string \<Rightarrow> change option) \<Rightarrow> session \<Rightarrow> opts option \<Rightarrow> int \<Rightarrow> stream_outcome
     \<Rightarrow> nat \<times> action list \<times> session" where
  "spool parse s opts now res =
     (let s1 = assign_opts (setDefaults s) (opts_or_empty opts);
          req = spool_request s1
      in case res of
           Stream_rejected err \<Rightarrow> (ee s1, [Request now req], s1)
         | Streamed chunks \<Rightarrow>
             (case changeProcessor parse (batchSize s1) chunks of
                (evs, p) \<Rightarrow>
                  (ee s1,
                   Request now req # map (Emit (ee s1)) evs
                     @ [SetTimeout 10, Emit (ee s1) (End (lastSeq p))],
                   s1)))"

subsection \<open>Reading a trace\<close>

fun emitted :: "action list \<Rightarrow> event list" where
  "emitted [] = []"
| "emitted (Emit e ev # as) = ev # emitted as"
| "emitted (a # as) = emitted as"

fun events_on :: "nat \<Rightarrow> action list \<Rightarrow> event list" where
  "events_on e [] = []"
| "events_on e (Emit e' ev # as) = (if e' = e then ev # events_on e as else events_on e as)"
| "events_on e (a # as) = events_on e as"

fun requests_of :: "action list \<Rightarrow> (int \<times> request) list" where
  "requests_of [] = []"
| "requests_of (Request t r # as) = (t, r) # requests_of as"
| "requests_of (a # as) = requests_of as"


fun timers_of :: "action list \<Rightarrow> int list" where
  "timers_of [] = []"
| "timers_of (SetTimeout d # as) = d # timers_of as"
| "timers_of (a # as) = timers_of as"

fun changes_of :: "event list \<Rightarrow> change list" where
  "changes_of [] = []"
| "changes_of (Change c # evs) = c # changes_of evs"
| "changes_of (ev # evs) = changes_of evs"

fun seq_tokens :: "event list \<Rightarrow> token list" where
  "seq_tokens [] = []"
| "seq_tokens (Seq t # evs) = t # seq_tokens evs"
| "seq_tokens (ev # evs) = seq_tokens evs"

fun end_tokens :: "event list \<Rightarrow> token list" where
  "end_tokens [] = []"
| "end_tokens (End t # evs) = t # end_tokens evs"
| "end_tokens (ev # evs) = end_tokens evs"

text \<open>The cursor tokens a consumer is told, in order: those of \<^verbatim>\<open>seq\<close> and \<^verbatim>\<open>end\<close> events.\<close>

fun cursor_tokens :: "event list \<Rightarrow> token list" where
  "cursor_tokens [] = []"
| "cursor_tokens (Seq t # evs) = t # cursor_tokens evs"
| "cursor_tokens (End t # evs) = t # cursor_tokens evs"
| "cursor_tokens (ev # evs) = cursor_tokens evs"

text \<open>
  What the server sent: the results array of an exchange, and the \<^verbatim>\<open>last_seq\<close> of a
  response when it is there and truthy (a list with at most one element).
\<close>

definition results_of :: "exchange \<Rightarrow> change list" where
  "results_of x = (case outcome x of Resolved data \<Rightarrow> results_array data | Rejected err \<Rightarrow> [])"

definition returned_last_seq :: "response_data option \<Rightarrow> token list" where
  "returned_last_seq data =
     (case data of None \<Rightarrow> []
      | Some d \<Rightarrow> (case last_seq d of None \<Rightarrow> [] | Some ls \<Rightarrow> if ls \<noteq> [] then [ls] else []))"

definition last_seq_of :: "exchange \<Rightarrow> token list" where
  "last_seq_of x =
     (case outcome x of Resolved data \<Rightarrow> returned_last_seq data | Rejected err \<Rightarrow> [])"

text \<open>
  What one pass of the loop body publishes, read off the two handlers: the records, the
  cursor if it moved, the batch; or the error with its normalised status.
\<close>

definition pass_events :: "session \<Rightarrow> exchange \<Rightarrow> event list" where
  "pass_events s x =
     (case outcome x of
        Resolved data \<Rightarrow>
          map Change (results_array data)
          @ map Seq (tl (remdups_adj (since s # returned_last_seq data)))
          @ (if has_results data then [Batch (results_array data) (wait s)] else [])
      | Rejected err \<Rightarrow>
          [Error (err\<lparr>statusCode := Some (normalize_status (response_status err))\<rparr>)])"

subsection \<open>The constructor, and sample values\<close>

text \<open>
  \<^verbatim>\<open>new ChangesReader(db, couchURL, headers)\<close>. The default \<^verbatim>\<open>user-agent\<close> header
  is built from the package description and the runtime version and is a parameter. The
  fields that \<^verbatim>\<open>setDefaults\<close> overwrites start from placeholders.
\<close>

definition new_ChangesReader ::
  "string \<Rightarrow> string \<Rightarrow> string \<Rightarrow> (string \<times> string) list option \<Rightarrow> session" where
  "new_ChangesReader database url user_agent hdrs =
     (setDefaults
        \<lparr>db = database, couchURL = url, headers = [], ee = 0, next_ee = 0, batchSize = 0,
         fastChanges = False, since = [], includeDocs = False, timeout = 0, heartbeat = 0,
         started = False, wait = False, stopOnEmptyChanges = False, continue = False,
         qs = [], selector = None\<rparr>)
     \<lparr>headers := assign [(''user-agent'', user_agent)] (case hdrs of None \<Rightarrow> [] | Some h \<Rightarrow> h)\<rparr>"

definition sample_reader :: session where
  "sample_reader = new_ChangesReader ''animals'' ''http://localhost:5984'' ''changesreader'' None"

definition sample_change :: "token \<Rightarrow> change" where
  "sample_change t = \<lparr>seq = t, ident = ''doc-'' @ t, changes = [], deleted = None, doc = None\<rparr>"

text \<open>
  A stand-in for the structured parser in the examples: a line in braces is a record whose
  token is the text between them, every other line fails to parse.
\<close>

definition sample_parse :: "string \<Rightarrow> change option" where
  "sample_parse l =
     (if length l \<ge> 2 \<and> hd l = CHR ''{'' \<and> last l = CHR ''}''
      then Some (sample_change (butlast (tl l))) else None)"

definition sample_stream :: "string list" where
  "sample_stream =
     [''{results:['', ''{1-a},'', ''{2-b},'', [], ''{3-c}'', ''],'', ''last_seq:3-c}'']"

definition reply :: "change list \<Rightarrow> token \<Rightarrow> exchange" where
  "reply rs ls =
     \<lparr>stop_called = False, latency = 20,
      outcome = Resolved (Some \<lparr>results = Some rs, last_seq = Some ls\<rparr>), ack = Some 0\<rparr>"

definition failure :: "int option \<Rightarrow> exchange" where
  "failure st =
     \<lparr>stop_called = False, latency = 20,
      outcome = Rejected \<lparr>response_status = st, reason = None, statusCode = None\<rparr>, ack = None\<rparr>"

text \<open>An order on the tokens of the examples: \<^verbatim>\<open>now\<close>, then \<^verbatim>\<open>1\<close>, then \<^verbatim>\<open>2\<close>.\<close>

definition sample_order :: "token \<Rightarrow> token \<Rightarrow> bool" where
  "sample_order a b =
     (a = b \<or> (a = ''now'' \<and> b = ''1'') \<or> (a = ''now'' \<and> b = ''2'') \<or> (a = ''1'' \<and> b = ''2''))"

lemmas run_defs =
  start_def get_def opts_or_empty_def no_opts_def assign_opts_def iteratee_def on_fulfilled_def
  on_rejected_def emit_changes_def update_since_def stop_on_small_batch_def small_batch_def
  emit_batch_def pace_def has_results_def results_array_def normalize_status_def is_fatal_def
  truthy_def finish_def setDefaults_def stop_def results_of_def last_seq_of_def
  returned_last_seq_def longpoll_request_def doWhilst.simps setTimeout_wait_def
  TIMEOUT_MAX_def

lemmas sample_defs =
  sample_reader_def new_ChangesReader_def sample_change_def reply_def failure_def assign_def

lemmas processor_defs =
  changeProcessor_def transform_def emit_def flush_def new_processor_def strip_separator_def
  sample_parse_def sample_stream_def sample_change_def parsed_records_def

section \<open>Properties of the batch accumulator\<close>

lemma batches_of_append: "batches_of (xs @ ys) = batches_of xs @ batches_of ys"
  by (induction xs rule: batches_of.induct) simp_all

lemma parsed_records_Cons:
  "parsed_records parse (c # cs) = parsed_records parse [c] @ parsed_records parse cs"
  by (simp add: parsed_records_def List.map_filter_def)

lemma transform_step:
  assumes "0 < bs" "length (buffer p) < nat bs" "transform parse bs p c = (evs, p')"
  shows "concat (batches_of evs) @ buffer p' = buffer p @ parsed_records parse [c]
       \<and> list_all (\<lambda>b. length b = nat bs) (batches_of evs)
       \<and> length (buffer p') < nat bs
       \<and> lastSeq p' = (if batches_of evs = [] then lastSeq p else seq (last (last (batches_of evs))))
       \<and> evs = map (\<lambda>b. Batch b False) (batches_of evs)"
proof (cases "parse (strip_separator c)")
  case None
  with assms show ?thesis
    by (auto simp: transform_def parsed_records_def)
next
  case (Some j)
  show ?thesis
  proof (cases "int (length (buffer p @ [j])) \<ge> bs")
    case True
    with assms(1,2) have len: "length (buffer p @ [j]) = nat bs" by auto
    from assms(3) Some True len assms(1) show ?thesis
      by (auto simp: transform_def emit_def Let_def parsed_records_def)
  next
    case False
    with assms Some show ?thesis
      by (auto simp: transform_def Let_def parsed_records_def)
  qed
qed

lemma transform_all_inv:
  assumes "0 < bs"
  shows "length (buffer p) < nat bs \<Longrightarrow> transform_all parse bs p cs = (evs, p') \<Longrightarrow>
       concat (batches_of evs) @ buffer p' = buffer p @ parsed_records parse cs
       \<and> list_all (\<lambda>b. length b = nat bs) (batches_of evs)
       \<and> length (buffer p') < nat bs
       \<and> lastSeq p' = (if batches_of evs = [] then lastSeq p else seq (last (last (batches_of evs))))
       \<and> evs = map (\<lambda>b. Batch b False) (batches_of evs)"
proof (induction cs arbitrary: p evs p')
  case Nil
  then show ?case by (simp add: parsed_records_def)
next
  case (Cons c cs)
  obtain e1 p1 where t1: "transform parse bs p c = (e1, p1)"
    by (cases "transform parse bs p c")
  obtain e2 p2 where t2: "transform_all parse bs p1 cs = (e2, p2)"
    by (cases "transform_all parse bs p1 cs")
  from Cons.prems(2) t1 t2 have ev: "evs = e1 @ e2" and pp: "p' = p2" by simp_all
  note s1 = transform_step[OF assms Cons.prems(1) t1]
  from s1 have l1: "length (buffer p1) < nat bs" by simp
  note s2 = Cons.IH[OF l1 t2]
  have c1: "concat (batches_of evs) @ buffer p' = buffer p @ parsed_records parse (c # cs)"
  proof -
    have "concat (batches_of evs) @ buffer p'
          = concat (batches_of e1) @ (concat (batches_of e2) @ buffer p2)"
      by (simp add: ev pp batches_of_append)
    also have "\<dots> = concat (batches_of e1) @ buffer p1 @ parsed_records parse cs"
      using s2 by simp
    also have "\<dots> = (buffer p @ parsed_records parse [c]) @ parsed_records parse cs"
      using s1 by (metis append_assoc)
    finally show ?thesis by (simp add: parsed_records_Cons[of parse c cs])
  qed
  have c2: "list_all (\<lambda>b. length b = nat bs) (batches_of evs)"
    using s1 s2 by (simp add: ev batches_of_append)
  have c3: "length (buffer p') < nat bs" using s2 pp by simp
  have c4: "lastSeq p' = (if batches_of evs = [] then lastSeq p else seq (last (last (batches_of evs))))"
    using s1 s2 by (auto simp: ev pp batches_of_append)
  have c5: "evs = map (\<lambda>b. Batch b False) (batches_of evs)"
  proof -
    have a: "e1 = map (\<lambda>b. Batch b False) (batches_of e1)" using s1 by blast
    have b: "e2 = map (\<lambda>b. Batch b False) (batches_of e2)" using s2 by blast
    have "map (\<lambda>b. Batch b False) (batches_of evs)
          = map (\<lambda>b. Batch b False) (batches_of e1) @ map (\<lambda>b. Batch b False) (batches_of e2)"
      by (simp add: ev batches_of_append)
    also have "\<dots> = e1 @ e2" using a b by metis
    finally show ?thesis by (simp add: ev)
  qed
  from c1 c2 c3 c4 c5 show ?case by blast
qed

lemma length_concat_uniform:
  "list_all (\<lambda>b. length b = n) xs \<Longrightarrow> length (concat xs) = n * length xs"
  by (induction xs) simp_all

lemma last_concat_nonempty:
  "xss \<noteq> [] \<Longrightarrow> last xss \<noteq> [] \<Longrightarrow> last (concat xss) = last (last xss)"
proof (induction xss)
  case Nil
  then show ?case by simp
next
  case (Cons x xss)
  show ?case
  proof (cases "xss = []")
    case True
    then show ?thesis by simp
  next
    case False
    with Cons.prems have l: "last xss \<noteq> []" by simp
    have "last xss \<in> set xss" using False by simp
    with l have "concat xss \<noteq> []" by auto
    with Cons.IH[OF False l] False show ?thesis by simp
  qed
qed

lemma ceil_div_split:
  fixes b k r :: nat
  assumes "0 < b" "r < b"
  shows "(b * k + r + b - 1) div b = k + (if r = 0 then 0 else 1)"
proof (cases "r = 0")
  case True
  have "b * k + b - 1 = b - 1 + k * b" using assms(1) by (cases b) simp_all
  then have "(b * k + b - 1) div b = (b - 1 + k * b) div b" by simp
  also have "\<dots> = k" using assms(1) by (subst div_mult_self1) simp_all
  finally show ?thesis using True by simp
next
  case False
  have "(b * k + r + b - 1) = (r - 1) + (k + 1) * b" using False assms by (simp add: algebra_simps)
  then have "(b * k + r + b - 1) div b = ((r - 1) + (k + 1) * b) div b" by simp
  also have "\<dots> = k + 1" using assms by (subst div_mult_self1) simp_all
  finally show ?thesis using False by simp
qed

text \<open>
  Claim C4. For a batch size above zero and any stream of lines, of which \<open>N\<close> parse to
  a record (the others, framing lines, do not), the accumulator publishes the records in
  their order, in \<open>\<lceil>N / batchSize\<rceil>\<close> batches and nothing else; every batch but the last
  has exactly \<open>batchSize\<close> records and the last between one and \<open>batchSize\<close>; the buffer
  is empty at the end, and \<open>lastSeq\<close> is the token of the \<open>N\<close>-th record (the initial
  \<^verbatim>\<open>'0'\<close> when there was none).
\<close>

theorem changeProcessor_batches:
  "0 < bs \<Longrightarrow> changeProcessor parse bs chunks = (evs, p) \<Longrightarrow>
     concat (batches_of evs) = parsed_records parse chunks
   \<and> length (batches_of evs)
       = (length (parsed_records parse chunks) + nat bs - 1) div nat bs
   \<and> list_all (\<lambda>b. length b = nat bs) (butlast (batches_of evs))
   \<and> list_all (\<lambda>b. 0 < length b \<and> length b \<le> nat bs) (batches_of evs)
   \<and> evs = map (\<lambda>b. Batch b False) (batches_of evs)
   \<and> lastSeq p = (if parsed_records parse chunks = [] then ''0''
                    else seq (last (parsed_records parse chunks)))
   \<and> buffer p = []"
proof -
  assume pos: "0 < bs" and run: "changeProcessor parse bs chunks = (evs, p)"
  let ?b = "nat bs"
  let ?recs = "parsed_records parse chunks"
  obtain e1 p1 where t: "transform_all parse bs new_processor chunks = (e1, p1)"
    by (cases "transform_all parse bs new_processor chunks")
  have b0: "length (buffer new_processor) < ?b" using pos by (simp add: new_processor_def)
  note inv = transform_all_inv[OF pos b0 t]
  from inv have cat: "concat (batches_of e1) @ buffer p1 = ?recs" by (simp add: new_processor_def)
  from inv have full: "list_all (\<lambda>b. length b = ?b) (batches_of e1)" by simp
  from inv have small: "length (buffer p1) < ?b" by simp
  from inv have ls: "lastSeq p1 = (if batches_of e1 = [] then ''0'' else seq (last (last (batches_of e1))))"
    by (simp add: new_processor_def)
  from inv have only: "e1 = map (\<lambda>b. Batch b False) (batches_of e1)" by simp
  have bpos: "0 < ?b" using pos by simp
  have N: "length ?recs = ?b * length (batches_of e1) + length (buffer p1)"
    using length_concat_uniform[OF full] cat by (metis length_append)
  have nonempty: "list_all (\<lambda>b. b \<noteq> []) (batches_of e1)"
    using full bpos by (auto simp: list_all_iff)
  show ?thesis
  proof (cases "buffer p1 = []")
    case True
    with run t have ev: "evs = e1" and pp: "p = p1"
      by (simp_all add: changeProcessor_def flush_def)
    have cnt: "length (batches_of evs) = (length ?recs + ?b - 1) div ?b"
      using ceil_div_split[OF bpos small, of "length (batches_of e1)"] N True ev by simp
    have lastseq: "lastSeq p = (if ?recs = [] then ''0'' else seq (last ?recs))"
    proof (cases "batches_of e1 = []")
      case True
      with cat \<open>buffer p1 = []\<close> ls pp show ?thesis by simp
    next
      case False
      then have "last (batches_of e1) \<noteq> []" using nonempty by (simp add: list_all_iff)
      with False cat \<open>buffer p1 = []\<close>
      have "last ?recs = last (last (batches_of e1))" "?recs \<noteq> []"
        using last_concat_nonempty[of "batches_of e1"] by auto
      with ls pp False show ?thesis by simp
    qed
    from full have f1: "list_all (\<lambda>b. length b = ?b) (butlast (batches_of evs))"
      by (auto simp: ev list_all_iff dest: in_set_butlastD)
    from full bpos have f2: "list_all (\<lambda>b. 0 < length b \<and> length b \<le> ?b) (batches_of evs)"
      by (auto simp: ev list_all_iff)
    from cat True ev cnt f1 f2 only lastseq pp show ?thesis by simp
  next
    case False
    with run t have ev: "evs = e1 @ [Batch (buffer p1) False]"
      and pp: "p = p1\<lparr>buffer := [], lastSeq := seq (last (buffer p1))\<rparr>"
      by (simp_all add: changeProcessor_def flush_def emit_def)
    have bo: "batches_of evs = batches_of e1 @ [buffer p1]" by (simp add: ev batches_of_append)
    have cnt: "length (batches_of evs) = (length ?recs + ?b - 1) div ?b"
      using ceil_div_split[OF bpos small, of "length (batches_of e1)"] N False bo by simp
    from cat False have "?recs \<noteq> []" "last ?recs = last (buffer p1)"
      by (metis append_is_Nil_conv, metis last_appendR)
    then have lastseq: "lastSeq p = (if ?recs = [] then ''0'' else seq (last ?recs))"
      by (simp add: pp)
    from full have f1: "list_all (\<lambda>b. length b = ?b) (butlast (batches_of evs))"
      by (simp add: bo)
    from full bpos small False
    have f2: "list_all (\<lambda>b. 0 < length b \<and> length b \<le> ?b) (batches_of evs)"
      by (auto simp: bo list_all_iff)
    have only': "evs = map (\<lambda>b. Batch b False) (batches_of evs)"
      using only by (simp add: ev batches_of_append)
    have emp: "buffer p = []" by (simp add: pp)
    from cat bo have cat': "concat (batches_of evs) = ?recs" by simp
    from cat' cnt f1 f2 only' lastseq emp show ?thesis by blast
  qed
qed

theorem changeProcessor_batches_witness:
  "(0::int) < 2
   \<and> changeProcessor sample_parse 2 sample_stream
       = ([Batch [sample_change ''1-a'', sample_change ''2-b''] False,
           Batch [sample_change ''3-c''] False],
          \<lparr>buffer = [], lastSeq = ''3-c''\<rparr>)
   \<and> length (parsed_records sample_parse sample_stream) = 3
   \<and> length (batches_of [Batch [sample_change ''1-a'', sample_change ''2-b''] False,
                          Batch [sample_change ''3-c''] False]) = (3 + 2 - 1) div 2
   \<and> seq (last (parsed_records sample_parse sample_stream)) = ''3-c''"
proof -
  have pos: "(0::int) < 2" by simp
  have run: "changeProcessor sample_parse 2 sample_stream
       = ([Batch [sample_change ''1-a'', sample_change ''2-b''] False,
           Batch [sample_change ''3-c''] False],
          \<lparr>buffer = [], lastSeq = ''3-c''\<rparr>)"
    by (simp add: processor_defs Let_def)
  have recs: "parsed_records sample_parse sample_stream
       = [sample_change ''1-a'', sample_change ''2-b'', sample_change ''3-c'']"
    by (simp add: processor_defs List.map_filter_def)
  from changeProcessor_batches[OF pos run]
  have "lastSeq \<lparr>buffer = [], lastSeq = ''3-c''\<rparr>
          = (if parsed_records sample_parse sample_stream = [] then ''0''
             else seq (last (parsed_records sample_parse sample_stream)))"
    by blast
  then have "seq (last (parsed_records sample_parse sample_stream)) = ''3-c''"
    by (simp add: recs)
  with pos run recs show ?thesis by simp
qed

text \<open>
  Claim C9. A line that does not parse once one trailing separator is dropped leaves the
  accumulator as it was: nothing is published (so no \<^verbatim>\<open>error\<close> event), buffer and
  \<open>lastSeq\<close> are unchanged, and the lines after it are processed as if it had not been
  there.
\<close>

theorem unparseable_line_discarded:
  "parse (strip_separator chunk) = None \<Longrightarrow>
     transform parse bs p chunk = ([], p)
   \<and> errors_of (fst (transform parse bs p chunk)) = []
   \<and> buffer (snd (transform parse bs p chunk)) = buffer p
   \<and> transform_all parse bs p (chunk # chunks) = transform_all parse bs p chunks"
  by (simp add: transform_def split: prod.splits)

theorem unparseable_line_discarded_witness:
  "sample_parse (strip_separator '']},'') = None
   \<and> transform sample_parse 2 \<lparr>buffer = [sample_change ''1-a''], lastSeq = ''0''\<rparr> '']},''
       = ([], \<lparr>buffer = [sample_change ''1-a''], lastSeq = ''0''\<rparr>)
   \<and> transform_all sample_parse 2 \<lparr>buffer = [sample_change ''1-a''], lastSeq = ''0''\<rparr>
         ['']},'', ''{2-b}'']
       = ([Batch [sample_change ''1-a'', sample_change ''2-b''] False],
          \<lparr>buffer = [], lastSeq = ''2-b''\<rparr>)"
proof -
  have h: "sample_parse (strip_separator '']},'') = None"
    by (simp add: sample_parse_def strip_separator_def)
  have r: "transform_all sample_parse 2 \<lparr>buffer = [sample_change ''1-a''], lastSeq = ''0''\<rparr>
         [''{2-b}'']
       = ([Batch [sample_change ''1-a'', sample_change ''2-b''] False],
          \<lparr>buffer = [], lastSeq = ''2-b''\<rparr>)"
    by (simp add: processor_defs Let_def)
  from unparseable_line_discarded[where parse = sample_parse and chunk = "'']},''" and bs = 2
      and p = "\<lparr>buffer = [sample_change ''1-a''], lastSeq = ''0''\<rparr>"
      and chunks = "[''{2-b}'']", OF h] h r
  show ?thesis by simp
qed

section \<open>Properties of the polling loop\<close>

subsection \<open>Reading traces\<close>

lemma emitted_append: "emitted (a @ b) = emitted a @ emitted b"
  by (induction a rule: emitted.induct) simp_all

lemma events_on_append: "events_on e (a @ b) = events_on e a @ events_on e b"
  by (induction e a rule: events_on.induct) simp_all

lemma changes_of_append: "changes_of (a @ b) = changes_of a @ changes_of b"
  by (induction a rule: changes_of.induct) simp_all

lemma seq_tokens_append: "seq_tokens (a @ b) = seq_tokens a @ seq_tokens b"
  by (induction a rule: seq_tokens.induct) simp_all

lemma end_tokens_append: "end_tokens (a @ b) = end_tokens a @ end_tokens b"
  by (induction a rule: end_tokens.induct) simp_all

lemma cursor_tokens_append: "cursor_tokens (a @ b) = cursor_tokens a @ cursor_tokens b"
  by (induction a rule: cursor_tokens.induct) simp_all

lemma errors_of_append: "errors_of (xs @ ys) = errors_of xs @ errors_of ys"
  by (induction xs rule: errors_of.induct) simp_all

lemma emitted_map_Emit_fun:
  "emitted (map (\<lambda>c. Emit e (f c)) rs) = map f rs"
  "events_on e (map (\<lambda>c. Emit e (f c)) rs) = map f rs"
  by (induction rs) simp_all

lemma read_map_Change:
  "changes_of (map Change rs) = rs" "seq_tokens (map Change rs) = []"
  "end_tokens (map Change rs) = []" "batches_of (map Change rs) = []"
  "errors_of (map Change rs) = []" "cursor_tokens (map Change rs) = []"
  by (induction rs) simp_all

lemma read_map_Seq:
  "changes_of (map Seq ts) = []" "seq_tokens (map Seq ts) = ts"
  "end_tokens (map Seq ts) = []" "batches_of (map Seq ts) = []"
  "errors_of (map Seq ts) = []" "cursor_tokens (map Seq ts) = ts"
  by (induction ts) simp_all

subsection \<open>One pass\<close>

lemma on_fulfilled_alt:
  "on_fulfilled s data t acked =
     (emit_changes s data @ fst (update_since s data)
        @ fst (emit_batch (stop_on_small_batch (snd (update_since s data)) data) data t acked),
      stop_on_small_batch (snd (update_since s data)) data,
      fst (snd (emit_batch (stop_on_small_batch (snd (update_since s data)) data) data t acked)),
      snd (snd (emit_batch (stop_on_small_batch (snd (update_since s data)) data) data t acked)))"
  by (simp add: on_fulfilled_def Let_def split: prod.splits)

lemma update_since_fields:
  "continue (snd (update_since s data)) = continue s"
  "wait (snd (update_since s data)) = wait s"
  "timeout (snd (update_since s data)) = timeout s"
  "ee (snd (update_since s data)) = ee s"
  "stopOnEmptyChanges (snd (update_since s data)) = stopOnEmptyChanges s"
  "batchSize (snd (update_since s data)) = batchSize s"
  by (simp_all add: update_since_def split: option.splits)

lemma small_batch_update_since:
  "small_batch (snd (update_since s data)) data = small_batch s data"
  by (simp add: small_batch_def update_since_fields split: option.splits)

lemma stop_on_small_batch_fields:
  "ee (stop_on_small_batch s data) = ee s"
  "since (stop_on_small_batch s data) = since s"
  "wait (stop_on_small_batch s data) = wait s"
  "timeout (stop_on_small_batch s data) = timeout s"
  by (simp_all add: stop_on_small_batch_def)

lemma stop_fields:
  "ee (stop s) = ee s" "since (stop s) = since s" "wait (stop s) = wait s"
  "timeout (stop s) = timeout s" "stopOnEmptyChanges (stop s) = stopOnEmptyChanges s"
  "batchSize (stop s) = batchSize s" "continue (stop s) = False"
  by (simp_all add: stop_def)

lemma emit_changes_events:
  "emitted (emit_changes s data) = map Change (results_array data)"
  "events_on (ee s) (emit_changes s data) = map Change (results_array data)"
  by (auto simp: emit_changes_def has_results_def results_array_def emitted_map_Emit_fun
      split: option.splits)

lemma update_since_events:
  "emitted (fst (update_since s data))
     = map Seq (tl (remdups_adj (since s # returned_last_seq data)))"
  "events_on (ee s) (fst (update_since s data))
     = map Seq (tl (remdups_adj (since s # returned_last_seq data)))"
  by (simp_all add: update_since_def returned_last_seq_def split: option.splits)

lemma update_since_quiet:
  "timers_of (fst (update_since s data)) = []" "requests_of (fst (update_since s data)) = []"
  by (simp_all add: update_since_def split: option.splits)

lemma update_since_cursor:
  "since (snd (update_since s data)) = last (since s # returned_last_seq data)"
  by (simp add: update_since_def returned_last_seq_def split: option.splits)

lemma emit_batch_events:
  "emitted (fst (emit_batch s data t acked)) =
     (if has_results data then [Batch (results_array data) (wait s)] else [])"
  "events_on (ee s) (fst (emit_batch s data t acked)) =
     (if has_results data then [Batch (results_array data) (wait s)] else [])"
  by (simp_all add: emit_batch_def pace_def split: option.splits)

lemma on_fulfilled_events:
  "emitted (fst (on_fulfilled s data t acked)) =
     map Change (results_array data)
     @ map Seq (tl (remdups_adj (since s # returned_last_seq data)))
     @ (if has_results data then [Batch (results_array data) (wait s)] else [])"
  "events_on (ee s) (fst (on_fulfilled s data t acked)) =
     map Change (results_array data)
     @ map Seq (tl (remdups_adj (since s # returned_last_seq data)))
     @ (if has_results data then [Batch (results_array data) (wait s)] else [])"
   apply (simp add: on_fulfilled_alt emitted_append emit_changes_events update_since_events
      emit_batch_events stop_on_small_batch_fields update_since_fields)
  apply (simp add: on_fulfilled_alt events_on_append emit_changes_events update_since_events
      stop_on_small_batch_fields update_since_fields)
  using emit_batch_events(2)[of "stop_on_small_batch (snd (update_since s data)) data" data t acked]
  apply (simp add: stop_on_small_batch_fields update_since_fields)
  done

lemma on_fulfilled_fields:
  "ee (fst (snd (on_fulfilled s data t acked))) = ee s"
  "since (fst (snd (on_fulfilled s data t acked))) = last (since s # returned_last_seq data)"
  by (simp_all add: on_fulfilled_alt stop_on_small_batch_fields update_since_fields
      update_since_cursor)

lemma on_rejected_events:
  "emitted (fst (on_rejected s err)) =
     [Error (err\<lparr>statusCode := Some (normalize_status (response_status err))\<rparr>)]"
  "events_on (ee s) (fst (on_rejected s err)) =
     [Error (err\<lparr>statusCode := Some (normalize_status (response_status err))\<rparr>)]"
  "ee (fst (snd (on_rejected s err))) = ee s"
  "since (fst (snd (on_rejected s err))) = since s"
  by (simp_all add: on_rejected_def Let_def)

lemma on_rejected_fatal:
  assumes "400 \<le> normalize_status (response_status err)"
    "normalize_status (response_status err) < 500"
    "normalize_status (response_status err) \<noteq> 429"
  shows "on_rejected s err =
     ([Emit (ee s) (Error (err\<lparr>statusCode := Some (normalize_status (response_status err))\<rparr>))],
      s\<lparr>continue := False\<rparr>, Next (truthy (reason err)), 0)"
  using assms by (auto simp: on_rejected_def is_fatal_def Let_def)


lemma iteratee_resolved:
  "outcome x = Resolved data \<Longrightarrow>
     iteratee cfg now s x =
       (Request now (longpoll_request s cfg)
          # fst (on_fulfilled (if stop_called x then stop s else s) data (latency x) (ack x)),
        fst (snd (on_fulfilled (if stop_called x then stop s else s) data (latency x) (ack x))),
        fst (snd (snd (on_fulfilled (if stop_called x then stop s else s) data (latency x) (ack x)))),
        now + latency x
          + snd (snd (snd (on_fulfilled (if stop_called x then stop s else s) data (latency x) (ack x)))))"
  by (simp add: iteratee_def Let_def split: prod.splits)

lemma iteratee_rejected:
  "outcome x = Rejected err \<Longrightarrow>
     iteratee cfg now s x =
       (Request now (longpoll_request s cfg)
          # fst (on_rejected (if stop_called x then stop s else s) err),
        fst (snd (on_rejected (if stop_called x then stop s else s) err)),
        fst (snd (snd (on_rejected (if stop_called x then stop s else s) err))),
        now + latency x + snd (snd (snd (on_rejected (if stop_called x then stop s else s) err))))"
  by (simp add: iteratee_def Let_def split: prod.splits)

lemma iteratee_emitted:
  "emitted (fst (iteratee cfg now s x)) = pass_events s x"
  "events_on (ee s) (fst (iteratee cfg now s x)) = pass_events s x"
  "ee (fst (snd (iteratee cfg now s x))) = ee s"
  "since (fst (snd (iteratee cfg now s x))) = last (since s # last_seq_of x)"
proof -
  let ?s0 = "if stop_called x then stop s else s"
  have f: "ee ?s0 = ee s" "since ?s0 = since s" "wait ?s0 = wait s" by (simp_all add: stop_fields)
  show "emitted (fst (iteratee cfg now s x)) = pass_events s x"
  proof (cases "outcome x")
    case (Resolved data)
    show ?thesis
      unfolding iteratee_resolved[OF Resolved] pass_events_def Resolved
      using on_fulfilled_events(1)[of ?s0 data "latency x" "ack x"] f by simp
  next
    case (Rejected err)
    show ?thesis
      unfolding iteratee_rejected[OF Rejected] pass_events_def Rejected
      using on_rejected_events(1)[of ?s0 err] by simp
  qed
  show "events_on (ee s) (fst (iteratee cfg now s x)) = pass_events s x"
  proof (cases "outcome x")
    case (Resolved data)
    show ?thesis
      unfolding iteratee_resolved[OF Resolved] pass_events_def Resolved
      using on_fulfilled_events(2)[of ?s0 data "latency x" "ack x"] f by simp
  next
    case (Rejected err)
    show ?thesis
      unfolding iteratee_rejected[OF Rejected] pass_events_def Rejected
      using on_rejected_events(2)[of ?s0 err] f by simp
  qed
  show "ee (fst (snd (iteratee cfg now s x))) = ee s"
  proof (cases "outcome x")
    case (Resolved data)
    show ?thesis unfolding iteratee_resolved[OF Resolved]
      using on_fulfilled_fields(1)[of ?s0 data "latency x" "ack x"] f by simp
  next
    case (Rejected err)
    show ?thesis unfolding iteratee_rejected[OF Rejected]
      using on_rejected_events(3)[of ?s0 err] f by simp
  qed
  show "since (fst (snd (iteratee cfg now s x))) = last (since s # last_seq_of x)"
  proof (cases "outcome x")
    case (Resolved data)
    show ?thesis unfolding iteratee_resolved[OF Resolved] last_seq_of_def Resolved
      using on_fulfilled_fields(2)[of ?s0 data "latency x" "ack x"] f by simp
  next
    case (Rejected err)
    show ?thesis unfolding iteratee_rejected[OF Rejected] last_seq_of_def Rejected
      using on_rejected_events(4)[of ?s0 err] f by simp
  qed
qed

lemma pass_events_read:
  "changes_of (pass_events s x) = results_of x"
  "seq_tokens (pass_events s x) = tl (remdups_adj (since s # last_seq_of x))"
  "end_tokens (pass_events s x) = []"
  "cursor_tokens (pass_events s x) = tl (remdups_adj (since s # last_seq_of x))"
  by (cases "outcome x";
      simp add: pass_events_def results_of_def last_seq_of_def changes_of_append seq_tokens_append
        end_tokens_append cursor_tokens_append read_map_Change read_map_Seq)+

lemma iteratee_stopped_session:
  "continue (fst (snd (iteratee cfg now s x))) \<Longrightarrow> \<not> stop_called x \<and> continue s"
proof (cases "outcome x")
  case (Resolved data)
  assume "continue (fst (snd (iteratee cfg now s x)))"
  then show ?thesis
    unfolding iteratee_resolved[OF Resolved]
    by (cases "stop_called x")
       (auto simp: on_fulfilled_alt stop_on_small_batch_def update_since_fields stop_fields
          split: if_splits)
next
  case (Rejected err)
  assume "continue (fst (snd (iteratee cfg now s x)))"
  then show ?thesis
    unfolding iteratee_rejected[OF Rejected]
    by (cases "stop_called x") (auto simp: on_rejected_def Let_def stop_fields split: if_splits)
qed

subsection \<open>The whole run\<close>

lemma iteratee_shape:
  "\<exists>a. fst (iteratee cfg now s x) = Request now (longpoll_request s cfg) # a"
  by (cases "outcome x") (simp_all add: iteratee_resolved iteratee_rejected)

lemma doWhilst_Cons:
  "doWhilst cfg now s (x # xs) =
     (case fst (snd (snd (iteratee cfg now s x))) of
        Never \<Rightarrow> \<lparr>trace = fst (iteratee cfg now s x),
                   session_after = fst (snd (iteratee cfg now s x)),
                   phase = Awaiting_ack, consumed = 1\<rparr>
      | Next err \<Rightarrow>
          if \<not> err \<and> continue (fst (snd (iteratee cfg now s x))) then
            \<lparr>trace = fst (iteratee cfg now s x)
                 @ trace (doWhilst cfg (snd (snd (snd (iteratee cfg now s x))))
                            (fst (snd (iteratee cfg now s x))) xs),
             session_after = session_after (doWhilst cfg (snd (snd (snd (iteratee cfg now s x))))
                            (fst (snd (iteratee cfg now s x))) xs),
             phase = phase (doWhilst cfg (snd (snd (snd (iteratee cfg now s x))))
                            (fst (snd (iteratee cfg now s x))) xs),
             consumed = Suc (consumed (doWhilst cfg (snd (snd (snd (iteratee cfg now s x))))
                            (fst (snd (iteratee cfg now s x))) xs))\<rparr>
          else
            \<lparr>trace = fst (iteratee cfg now s x)
                 @ [Emit (ee (fst (snd (iteratee cfg now s x))))
                      (End (since (fst (snd (iteratee cfg now s x)))))],
             session_after = setDefaults (fst (snd (iteratee cfg now s x))),
             phase = Ended, consumed = 1\<rparr>)"
  by (simp add: finish_def Let_def split: prod.splits continuation.splits)

declare doWhilst.simps(2) [simp del]

lemma doWhilst_first_request:
  "\<exists>rest. trace (doWhilst cfg now s script) = Request now (longpoll_request s cfg) # rest"
proof (cases script)
  case Nil
  then show ?thesis by simp
next
  case (Cons x xs)
  obtain a where a: "fst (iteratee cfg now s x) = Request now (longpoll_request s cfg) # a"
    using iteratee_shape by blast
  show ?thesis
    unfolding Cons doWhilst_Cons
    by (cases "fst (snd (snd (iteratee cfg now s x)))") (simp_all add: a)
qed






text \<open>
  Claim C2. When a request fails with a normalised status from 400 to 499 other than 429,
  the pass sets \<open>continue\<close> to false, and what the run does from that request on is: the
  request, one \<^verbatim>\<open>error\<close> event (carrying the normalised status), one \<^verbatim>\<open>end\<close>
  event with the unchanged cursor, and nothing more. The run has ended, whatever the rest
  of the script holds.
\<close>

theorem fatal_error_ends_run:
  "outcome x = Rejected err \<Longrightarrow>
   400 \<le> normalize_status (response_status err) \<Longrightarrow>
   normalize_status (response_status err) < 500 \<Longrightarrow>
   normalize_status (response_status err) \<noteq> 429 \<Longrightarrow>
     trace (doWhilst cfg now s (x # xs)) =
       [Request now (longpoll_request s cfg),
        Emit (ee s) (Error (err\<lparr>statusCode := Some (normalize_status (response_status err))\<rparr>)),
        Emit (ee s) (End (since s))]
   \<and> phase (doWhilst cfg now s (x # xs)) = Ended
   \<and> consumed (doWhilst cfg now s (x # xs)) = 1
   \<and> continue (fst (snd (iteratee cfg now s x))) = False"
  by (simp add: doWhilst.simps iteratee_def on_rejected_fatal finish_def stop_def Let_def)

theorem fatal_error_ends_run_witness:
  "outcome (failure (Some 401)) = Rejected \<lparr>response_status = Some 401, reason = None, statusCode = None\<rparr>
   \<and> 400 \<le> normalize_status (Some 401) \<and> normalize_status (Some 401) < 500
   \<and> normalize_status (Some 401) \<noteq> 429
   \<and> emitted (trace (doWhilst no_opts 0 sample_reader [failure (Some 401), reply [] ''5'']))
       = [Error \<lparr>response_status = Some 401, reason = None, statusCode = Some 401\<rparr>, End ''now'']
   \<and> requests_of (trace (doWhilst no_opts 0 sample_reader [failure (Some 401), reply [] ''5'']))
       = [(0, longpoll_request sample_reader no_opts)]"
proof -
  have h: "outcome (failure (Some 401))
      = Rejected \<lparr>response_status = Some 401, reason = None, statusCode = None\<rparr>"
    by (simp add: failure_def)
  have n: "normalize_status (Some 401) = 401" by (simp add: normalize_status_def)
  have since: "since sample_reader = ''now''"
    by (simp add: sample_defs setDefaults_def)
  from fatal_error_ends_run[where x = "failure (Some 401)" and cfg = no_opts and now = 0
      and s = sample_reader and xs = "[reply [] ''5'']", OF h] n
  have "trace (doWhilst no_opts 0 sample_reader [failure (Some 401), reply [] ''5'']) =
       [Request 0 (longpoll_request sample_reader no_opts),
        Emit (ee sample_reader)
          (Error \<lparr>response_status = Some 401, reason = None, statusCode = Some 401\<rparr>),
        Emit (ee sample_reader) (End (since sample_reader))]"
    by simp
  with h n since show ?thesis by simp
qed



text \<open>
  Claim C5, as amended. After a successful response without results, in a run that has not
  been told to stop and is not ended by the bounded-run rule, the loop goes on: the next
  request follows at once if the time since the request exceeds \<open>timeout\<close>, and otherwise
  after one timer set to \<open>timeout\<close> minus that time; nothing else is requested or timed
  in between. The runtime waits for the delay it is given when that is from 1 to
  2147483647 milliseconds, and then the next request is issued exactly \<open>timeout\<close> after
  this one; whenever the delay is at most 2147483647 the next request is issued no less
  than \<open>timeout\<close> after this one.
\<close>

theorem empty_response_pacing:
  "outcome x = Resolved data \<Longrightarrow> \<not> has_results data \<Longrightarrow>
   continue s \<Longrightarrow> \<not> stop_called x \<Longrightarrow> \<not> small_batch s data \<Longrightarrow>
     continue (fst (snd (iteratee cfg now s x)))
   \<and> trace (doWhilst cfg now s (x # xs)) =
       Request now (longpoll_request s cfg) # fst (update_since s data)
       @ (if latency x > timeout s then [] else [SetTimeout (timeout s - latency x)])
       @ trace (doWhilst cfg
                 (now + latency x
                    + (if latency x > timeout s then 0 else setTimeout_wait (timeout s - latency x)))
                 (snd (update_since s data)) xs)
   \<and> hd (trace (doWhilst cfg
                 (now + latency x
                    + (if latency x > timeout s then 0 else setTimeout_wait (timeout s - latency x)))
                 (snd (update_since s data)) xs))
       = Request (now + latency x
                    + (if latency x > timeout s then 0 else setTimeout_wait (timeout s - latency x)))
           (longpoll_request (snd (update_since s data)) cfg)
   \<and> timers_of (fst (update_since s data)) = []
   \<and> requests_of (fst (update_since s data)) = []
   \<and> (1 \<le> timeout s - latency x \<and> timeout s - latency x \<le> TIMEOUT_MAX \<longrightarrow>
        now + latency x
          + (if latency x > timeout s then 0 else setTimeout_wait (timeout s - latency x))
        = now + timeout s)
   \<and> (timeout s - latency x \<le> TIMEOUT_MAX \<longrightarrow>
        (now + latency x
          + (if latency x > timeout s then 0 else setTimeout_wait (timeout s - latency x))) - now
        \<ge> timeout s)"
proof -
  assume a: "outcome x = Resolved data" "\<not> has_results data"
    and b: "continue s" "\<not> stop_called x" and sb0: "\<not> small_batch s data"
  let ?d = "if latency x > timeout s then 0 else setTimeout_wait (timeout s - latency x)"
  let ?s' = "snd (update_since s data)"
  have sb: "\<not> small_batch ?s' data" using sb0 by (simp add: small_batch_update_since)
  obtain rest where r: "trace (doWhilst cfg (now + latency x + ?d) ?s' xs)
      = Request (now + latency x + ?d) (longpoll_request ?s' cfg) # rest"
    using doWhilst_first_request by blast
  have it: "iteratee cfg now s x =
      (Request now (longpoll_request s cfg) # fst (update_since s data)
         @ (if latency x > timeout s then [] else [SetTimeout (timeout s - latency x)]),
       ?s', Next False, now + latency x + ?d)"
    using a b sb
    by (simp add: iteratee_def on_fulfilled_alt emit_batch_def pace_def emit_changes_def
          stop_on_small_batch_def update_since_fields Let_def)
  have c: "continue ?s'" using b(1) by (simp add: update_since_fields)
  have c': "continue (fst (snd (iteratee cfg now s x)))" using c by (simp add: it)
  have t1: "trace (doWhilst cfg now s (x # xs)) =
       Request now (longpoll_request s cfg) # fst (update_since s data)
       @ (if latency x > timeout s then [] else [SetTimeout (timeout s - latency x)])
       @ trace (doWhilst cfg (now + latency x + ?d) ?s' xs)"
    using it c by (simp add: doWhilst.simps Let_def)
  have t2: "hd (trace (doWhilst cfg (now + latency x + ?d) ?s' xs))
       = Request (now + latency x + ?d) (longpoll_request ?s' cfg)"
    using r by simp
  have t3: "1 \<le> timeout s - latency x \<and> timeout s - latency x \<le> TIMEOUT_MAX \<longrightarrow>
        now + latency x + ?d = now + timeout s"
    by (simp add: setTimeout_wait_def)
  have t4: "timeout s - latency x \<le> TIMEOUT_MAX \<longrightarrow> (now + latency x + ?d) - now \<ge> timeout s"
    by (simp add: setTimeout_wait_def)
  from c' t1 t2 update_since_quiet t3 t4 show ?thesis by blast
qed

theorem empty_response_pacing_witness:
  "outcome (reply [] ''now'') = Resolved (Some \<lparr>results = Some [], last_seq = Some ''now''\<rparr>)
   \<and> has_results (Some \<lparr>results = Some [], last_seq = Some ''now''\<rparr>) = False
   \<and> continue sample_reader \<and> stop_called (reply [] ''now'') = False
   \<and> small_batch sample_reader (Some \<lparr>results = Some [], last_seq = Some ''now''\<rparr>) = False
   \<and> 1 \<le> timeout sample_reader - latency (reply [] ''now'')
   \<and> timeout sample_reader - latency (reply [] ''now'') \<le> TIMEOUT_MAX
   \<and> requests_of (trace (doWhilst no_opts 0 sample_reader [reply [] ''now'']))
       = [(0, longpoll_request sample_reader no_opts), (60000, longpoll_request sample_reader no_opts)]
   \<and> timers_of (trace (doWhilst no_opts 0 sample_reader [reply [] ''now''])) = [59980]"
proof -
  let ?d = "Some \<lparr>results = Some [], last_seq = Some ''now''\<rparr>"
  have h: "outcome (reply [] ''now'') = Resolved ?d" by (simp add: reply_def)
  have e: "\<not> has_results ?d" by (simp add: has_results_def)
  have c: "continue sample_reader" "\<not> stop_called (reply [] ''now'')"
    "\<not> small_batch sample_reader ?d"
    by (simp_all add: reply_def sample_defs setDefaults_def small_batch_def)
  have u: "update_since sample_reader ?d = ([], sample_reader)"
    by (simp add: update_since_def sample_defs setDefaults_def)
  have l: "latency (reply [] ''now'') = 20" "timeout sample_reader = 60000"
    by (simp_all add: reply_def sample_defs setDefaults_def)
  have w: "setTimeout_wait 59980 = 59980" by (simp add: setTimeout_wait_def TIMEOUT_MAX_def)
  have m: "1 \<le> timeout sample_reader - latency (reply [] ''now'')"
    "timeout sample_reader - latency (reply [] ''now'') \<le> TIMEOUT_MAX"
    by (simp_all add: l TIMEOUT_MAX_def)
  from empty_response_pacing[where x = "reply [] ''now''" and cfg = no_opts and now = 0
      and s = sample_reader and xs = "[]", OF h e c]
  have "trace (doWhilst no_opts 0 sample_reader [reply [] ''now'']) =
       Request 0 (longpoll_request sample_reader no_opts) # fst (update_since sample_reader ?d)
       @ (if latency (reply [] ''now'') > timeout sample_reader then []
          else [SetTimeout (timeout sample_reader - latency (reply [] ''now''))])
       @ trace (doWhilst no_opts
                 (0 + latency (reply [] ''now'')
                    + (if latency (reply [] ''now'') > timeout sample_reader then 0
                       else setTimeout_wait (timeout sample_reader - latency (reply [] ''now''))))
                 (snd (update_since sample_reader ?d)) [])"
    by blast
  then have "trace (doWhilst no_opts 0 sample_reader [reply [] ''now'']) =
       [Request 0 (longpoll_request sample_reader no_opts), SetTimeout 59980,
        Request 60000 (longpoll_request sample_reader no_opts)]"
    by (simp add: u l w)
  with h e c m show ?thesis by simp
qed

text \<open>
  Against claim C5 as it was stated: with \<open>timeout\<close> set to 3000000000 and an empty
  response after 20 milliseconds, the timer is set to 2999999980, which the runtime
  replaces by 1, and the next request goes out at 21: far less than \<open>timeout\<close> after the
  one before, and not after a wait of \<open>timeout\<close> minus the elapsed time.
\<close>

theorem empty_response_pacing_counterexample:
  "map fst (requests_of (trace (snd (start sample_reader
        (Some (no_opts\<lparr>o_timeout := Some 3000000000\<rparr>)) 0 [reply [] ''now'']))))
     = [0, 21]
   \<and> timers_of (trace (snd (start sample_reader
        (Some (no_opts\<lparr>o_timeout := Some 3000000000\<rparr>)) 0 [reply [] ''now''])))
     = [2999999980]
   \<and> (21::int) - 0 < 3000000000"
  by (simp add: run_defs sample_defs Let_def)
lemma emit_batch_continuation:
  "acked \<noteq> None \<or> \<not> wait s \<or> \<not> has_results data \<Longrightarrow>
     fst (snd (emit_batch s data t acked)) = Next False"
  by (auto simp: emit_batch_def pace_def split: option.splits)
lemma assign_opts_flag:
  "stopOnEmptyChanges (assign_opts s cfg)
     = (case o_stopOnEmptyChanges cfg of None \<Rightarrow> stopOnEmptyChanges s | Some flag \<Rightarrow> flag)"
  by (simp add: assign_opts_def)

text \<open>
  Claim C6, as amended. \<open>get\<close> sets \<open>stopOnEmptyChanges\<close> on the session and then does
  what \<open>start\<close> does; the options are copied onto the session after that, so the run that
  \<open>get\<close> begins polls with the flag on when the options have no
  \<^verbatim>\<open>stopOnEmptyChanges\<close> key, and with the value of that key when they have one. In any
  run with the flag on, a response whose results array is shorter than \<open>batchSize\<close> sets
  \<open>continue\<close> to false; the records, the cursor update and the batch of that response are
  still published, then \<^verbatim>\<open>end\<close> with the cursor, and the run has ended with no
  further request. (In backpressure mode a batch has to be acknowledged for the loop to
  get that far.)
\<close>

theorem bounded_run_stops_on_small_batch:
  "stopOnEmptyChanges s \<Longrightarrow> outcome x = Resolved (Some d) \<Longrightarrow> results d = Some rs \<Longrightarrow>
   int (length rs) < batchSize s \<Longrightarrow> ack x \<noteq> None \<or> \<not> wait s \<or> rs = [] \<Longrightarrow>
     continue (fst (snd (iteratee cfg now s x))) = False
   \<and> phase (doWhilst cfg now s (x # xs)) = Ended
   \<and> consumed (doWhilst cfg now s (x # xs)) = 1
   \<and> changes_of (emitted (trace (doWhilst cfg now s (x # xs)))) = rs
   \<and> seq_tokens (emitted (trace (doWhilst cfg now s (x # xs))))
       = tl (remdups_adj (since s # last_seq_of x))
   \<and> batches_of (emitted (trace (doWhilst cfg now s (x # xs)))) = (if rs = [] then [] else [rs])
   \<and> end_tokens (emitted (trace (doWhilst cfg now s (x # xs)))) = [last (since s # last_seq_of x)]
   \<and> last (trace (doWhilst cfg now s (x # xs))) = Emit (ee s) (End (last (since s # last_seq_of x)))
   \<and> (started s0
       \<or> snd (get s0 opts now0 script)
           = doWhilst (opts_or_empty opts) now0
               (assign_opts (s0\<lparr>stopOnEmptyChanges := True, started := True\<rparr>) (opts_or_empty opts))
               script
         \<and> stopOnEmptyChanges
             (assign_opts (s0\<lparr>stopOnEmptyChanges := True, started := True\<rparr>) (opts_or_empty opts))
           = (case o_stopOnEmptyChanges (opts_or_empty opts) of None \<Rightarrow> True | Some flag \<Rightarrow> flag))"
proof -
  assume a: "stopOnEmptyChanges s" "outcome x = Resolved (Some d)" "results d = Some rs"
    "int (length rs) < batchSize s" "ack x \<noteq> None \<or> \<not> wait s \<or> rs = []"
  let ?it = "iteratee cfg now s x"
  let ?s0 = "if stop_called x then stop s else s"
  let ?s2 = "stop_on_small_batch (snd (update_since ?s0 (Some d))) (Some d)"
  have f: "stopOnEmptyChanges ?s0" "batchSize ?s0 = batchSize s" "wait ?s0 = wait s"
    using a(1) by (simp_all add: stop_fields)
  have sb: "small_batch (snd (update_since ?s0 (Some d))) (Some d)"
    using a(1,3,4)
    by (cases "stop_called x") (simp_all add: small_batch_def update_since_fields stop_fields)
  have s': "fst (snd ?it) = ?s2"
    unfolding iteratee_resolved[OF a(2)] by (simp add: on_fulfilled_alt)
  have c: "continue (fst (snd ?it)) = False"
    using sb by (simp add: s' stop_on_small_batch_def)
  have hr: "has_results (Some d) = (rs \<noteq> [])" "results_array (Some d) = rs"
    using a(3) by (simp_all add: has_results_def results_array_def)
  have w: "wait ?s2 = wait s"
    by (simp add: stop_on_small_batch_fields update_since_fields f)
  have k: "fst (snd (snd ?it)) = Next False"
    unfolding iteratee_resolved[OF a(2)]
    using emit_batch_continuation[of "ack x" ?s2 "Some d" "latency x"] a(5) w hr
    by (simp add: on_fulfilled_alt)
  have run: "doWhilst cfg now s (x # xs) =
      \<lparr>trace = fst ?it @ [Emit (ee (fst (snd ?it))) (End (since (fst (snd ?it))))],
       session_after = setDefaults (fst (snd ?it)), phase = Ended, consumed = 1\<rparr>"
    unfolding doWhilst_Cons using k c by simp
  have pe: "pass_events s x = map Change rs
      @ map Seq (tl (remdups_adj (since s # last_seq_of x)))
      @ (if rs = [] then [] else [Batch rs (wait s)])"
    using a(2) hr by (simp add: pass_events_def last_seq_of_def)
  have ev: "emitted (trace (doWhilst cfg now s (x # xs)))
      = pass_events s x @ [End (last (since s # last_seq_of x))]"
    unfolding run by (simp add: emitted_append iteratee_emitted)
  have g2: "started s0
       \<or> snd (get s0 opts now0 script)
           = doWhilst (opts_or_empty opts) now0
               (assign_opts (s0\<lparr>stopOnEmptyChanges := True, started := True\<rparr>) (opts_or_empty opts))
               script
         \<and> stopOnEmptyChanges
             (assign_opts (s0\<lparr>stopOnEmptyChanges := True, started := True\<rparr>) (opts_or_empty opts))
           = (case o_stopOnEmptyChanges (opts_or_empty opts) of None \<Rightarrow> True | Some flag \<Rightarrow> flag)"
    by (cases "o_stopOnEmptyChanges (opts_or_empty opts)")
       (simp_all add: get_def start_def Let_def assign_opts_flag)
  have e1: "changes_of (emitted (trace (doWhilst cfg now s (x # xs)))) = rs"
    unfolding ev pe by (simp add: changes_of_append read_map_Change read_map_Seq)
  have e2: "seq_tokens (emitted (trace (doWhilst cfg now s (x # xs))))
       = tl (remdups_adj (since s # last_seq_of x))"
    unfolding ev pe by (simp add: seq_tokens_append read_map_Change read_map_Seq)
  have e3: "batches_of (emitted (trace (doWhilst cfg now s (x # xs)))) = (if rs = [] then [] else [rs])"
    unfolding ev pe by (simp add: batches_of_append read_map_Change read_map_Seq)
  have e4: "end_tokens (emitted (trace (doWhilst cfg now s (x # xs)))) = [last (since s # last_seq_of x)]"
    unfolding ev pe by (simp add: end_tokens_append read_map_Change read_map_Seq)
  have e5: "last (trace (doWhilst cfg now s (x # xs))) = Emit (ee s) (End (last (since s # last_seq_of x)))"
    unfolding run by (simp add: iteratee_emitted)
  have p: "phase (doWhilst cfg now s (x # xs)) = Ended" "consumed (doWhilst cfg now s (x # xs)) = 1"
    unfolding run by simp_all
  from c p e1 e2 e3 e4 e5 g2 show ?thesis by blast
qed

theorem bounded_run_stops_on_small_batch_witness:
  "stopOnEmptyChanges (assign_opts (sample_reader\<lparr>stopOnEmptyChanges := True, started := True\<rparr>) no_opts)
   \<and> outcome (reply [sample_change ''1'', sample_change ''2''] ''2'')
       = Resolved (Some \<lparr>results = Some [sample_change ''1'', sample_change ''2''],
                          last_seq = Some ''2''\<rparr>)
   \<and> int (length [sample_change ''1'', sample_change ''2''])
       < batchSize (assign_opts (sample_reader\<lparr>stopOnEmptyChanges := True, started := True\<rparr>) no_opts)
   \<and> ack (reply [sample_change ''1'', sample_change ''2''] ''2'') = Some 0
   \<and> phase (snd (get sample_reader None 0
        [reply [sample_change ''1'', sample_change ''2''] ''2'', reply [sample_change ''3''] ''3'']))
       = Ended
   \<and> changes_of (emitted (trace (snd (get sample_reader None 0
        [reply [sample_change ''1'', sample_change ''2''] ''2'', reply [sample_change ''3''] ''3'']))))
       = [sample_change ''1'', sample_change ''2'']
   \<and> end_tokens (emitted (trace (snd (get sample_reader None 0
        [reply [sample_change ''1'', sample_change ''2''] ''2'', reply [sample_change ''3''] ''3'']))))
       = [''2'']"
proof -
  let ?s = "assign_opts (sample_reader\<lparr>stopOnEmptyChanges := True, started := True\<rparr>) no_opts"
  let ?rs = "[sample_change ''1'', sample_change ''2'']"
  let ?d = "\<lparr>results = Some ?rs, last_seq = Some ''2''\<rparr>"
  let ?x = "reply ?rs ''2''"
  let ?xs = "[reply [sample_change ''3''] ''3'']"
  have h1: "stopOnEmptyChanges ?s" by (simp add: assign_opts_def no_opts_def)
  have h2: "outcome ?x = Resolved (Some ?d)" by (simp add: reply_def)
  have h3: "results ?d = Some ?rs" by simp
  have h4: "int (length ?rs) < batchSize ?s"
    by (simp add: assign_opts_def no_opts_def sample_defs setDefaults_def)
  have h5: "ack ?x = Some 0" by (simp add: reply_def)
  then have h5': "ack ?x \<noteq> None \<or> \<not> wait ?s \<or> ?rs = []" by simp
  have ns: "\<not> started sample_reader" by (simp add: sample_defs setDefaults_def)
  have c: "last (since ?s # last_seq_of ?x) = ''2''"
    by (simp add: last_seq_of_def returned_last_seq_def reply_def)
  note t = bounded_run_stops_on_small_batch[where s = ?s and x = ?x and d = ?d and rs = ?rs
      and cfg = no_opts and now = 0 and xs = ?xs and ?s0.0 = sample_reader and opts = None
      and ?now0.0 = 0 and script = "?x # ?xs", OF h1 h2 h3 h4 h5']
  have oe: "opts_or_empty None = no_opts" by (simp add: opts_or_empty_def)
  from t ns have "snd (get sample_reader None 0 (?x # ?xs))
      = doWhilst (opts_or_empty None) 0
          (assign_opts (sample_reader\<lparr>stopOnEmptyChanges := True, started := True\<rparr>)
             (opts_or_empty None)) (?x # ?xs)"
    by blast
  then have g: "snd (get sample_reader None 0 (?x # ?xs)) = doWhilst no_opts 0 ?s (?x # ?xs)"
    by (simp only: oe)
  from t have "phase (doWhilst no_opts 0 ?s (?x # ?xs)) = Ended"
    "changes_of (emitted (trace (doWhilst no_opts 0 ?s (?x # ?xs)))) = ?rs"
    "end_tokens (emitted (trace (doWhilst no_opts 0 ?s (?x # ?xs))))
       = [last (since ?s # last_seq_of ?x)]"
    by blast+
  with h1 h2 h4 h5 g c show ?thesis by simp
qed


text \<open>
  Against claim C6 as it was stated: \<open>get\<close> with the option \<^verbatim>\<open>stopOnEmptyChanges: false\<close>
  begins a run with the flag off. It is answered with one record, fewer than the batch
  size of 100, and then with none, and after both it is still polling.
\<close>

theorem get_not_forced_counterexample:
  "stopOnEmptyChanges
     (assign_opts (sample_reader\<lparr>stopOnEmptyChanges := True, started := True\<rparr>)
        (no_opts\<lparr>o_stopOnEmptyChanges := Some False\<rparr>)) = False
   \<and> phase (snd (get sample_reader (Some (no_opts\<lparr>o_stopOnEmptyChanges := Some False\<rparr>)) 0
        [reply [sample_change ''1''] ''1'', reply [] ''1''])) = Awaiting_response
   \<and> consumed (snd (get sample_reader (Some (no_opts\<lparr>o_stopOnEmptyChanges := Some False\<rparr>)) 0
        [reply [sample_change ''1''] ''1'', reply [] ''1''])) = 2
   \<and> map fst (requests_of (trace (snd (get sample_reader
        (Some (no_opts\<lparr>o_stopOnEmptyChanges := Some False\<rparr>)) 0
        [reply [sample_change ''1''] ''1'', reply [] ''1'']))))
       = [0, 20, 60020]
   \<and> end_tokens (emitted (trace (snd (get sample_reader
        (Some (no_opts\<lparr>o_stopOnEmptyChanges := Some False\<rparr>)) 0
        [reply [sample_change ''1''] ''1'', reply [] ''1''])))) = []"
  by (simp add: run_defs sample_defs Let_def)
subsection \<open>The cursor\<close>

lemma tl_remdups_adj_chain:
  "length ys \<le> 1 \<Longrightarrow>
   tl (remdups_adj (a # ys @ zs))
     = tl (remdups_adj (a # ys)) @ tl (remdups_adj (last (a # ys) # zs))"
proof (cases ys)
  case Nil
  then show ?thesis by simp
next
  case (Cons y ys')
  assume "length ys \<le> 1"
  with Cons have e: "ys = [y]" by simp
  show ?thesis
  proof (cases "a = y")
    case True
    with e show ?thesis by simp
  next
    case False
    have "remdups_adj (y # zs) = y # tl (remdups_adj (y # zs))" by simp
    with False e show ?thesis by simp
  qed
qed

lemma last_seq_of_short: "length (last_seq_of x) \<le> 1"
  by (simp add: last_seq_of_def returned_last_seq_def split: outcome.splits option.splits)

lemma last_chain: "last (a # ys @ zs) = last (last (a # ys) # zs)"
  by (cases zs) simp_all

lemma doWhilst_cursor:
  "seq_tokens (emitted (trace (doWhilst cfg now s script)))
     = tl (remdups_adj (since s
             # concat (map last_seq_of (take (consumed (doWhilst cfg now s script)) script))))
   \<and> end_tokens (emitted (trace (doWhilst cfg now s script)))
     = (if phase (doWhilst cfg now s script) = Ended
        then [last (since s
             # concat (map last_seq_of (take (consumed (doWhilst cfg now s script)) script)))]
        else [])
   \<and> cursor_tokens (emitted (trace (doWhilst cfg now s script)))
     = seq_tokens (emitted (trace (doWhilst cfg now s script)))
       @ end_tokens (emitted (trace (doWhilst cfg now s script)))
   \<and> (if phase (doWhilst cfg now s script) = Ended then True
       else since (session_after (doWhilst cfg now s script))
          = last (since s
             # concat (map last_seq_of (take (consumed (doWhilst cfg now s script)) script))))"
proof (induction script arbitrary: now s)
  case Nil
  show ?case by simp
next
  case (Cons x xs)
  let ?it = "iteratee cfg now s x"
  let ?s' = "fst (snd ?it)"
  let ?t' = "snd (snd (snd ?it))"
  note ih = Cons.IH[where s = ?s' and now = ?t']
  note sh = last_seq_of_short[of x]
  have s': "since ?s' = last (since s # last_seq_of x)" by (simp add: iteratee_emitted)
  show ?case
  proof (cases "fst (snd (snd ?it))")
    case Never
    then show ?thesis
      unfolding doWhilst_Cons
      by (simp add: iteratee_emitted pass_events_read)
  next
    case (Next err)
    show ?thesis
    proof (cases "\<not> err \<and> continue ?s'")
      case True
      with Next show ?thesis
        unfolding doWhilst_Cons
        using ih tl_remdups_adj_chain[OF sh, of "since s"] last_chain[of "since s" "last_seq_of x"]
        by (simp add: emitted_append seq_tokens_append end_tokens_append cursor_tokens_append
              iteratee_emitted pass_events_read s')
    next
      case False
      with Next show ?thesis
        unfolding doWhilst_Cons
        by (auto simp: emitted_append seq_tokens_append end_tokens_append cursor_tokens_append
              iteratee_emitted pass_events_read)
    qed
  qed
qed

lemma sorted_wrt_remdups_adj: "sorted_wrt le xs \<Longrightarrow> sorted_wrt le (remdups_adj xs)"
  by (induction xs rule: remdups_adj.induct) auto

lemma sorted_wrt_tl: "sorted_wrt le xs \<Longrightarrow> sorted_wrt le (tl xs)"
  by (cases xs) simp_all

lemma sorted_wrt_le_last:
  "sorted_wrt le xs \<Longrightarrow> le (last xs) (last xs) \<Longrightarrow> x \<in> set xs \<Longrightarrow> le x (last xs)"
  by (induction xs) (auto split: if_splits)

lemma sorted_wrt_cursor:
  assumes "\<forall>t. le t t" "sorted_wrt le (a # obs)"
  shows "sorted_wrt le (tl (remdups_adj (a # obs)) @ [last (a # obs)])"
    "sorted_wrt le (tl (remdups_adj (a # obs)))"
proof -
  have s: "sorted_wrt le (tl (remdups_adj (a # obs)))"
    using assms(2) sorted_wrt_tl[OF sorted_wrt_remdups_adj, of le "a # obs"] by blast
  have "\<And>x. x \<in> set (tl (remdups_adj (a # obs))) \<Longrightarrow> le x (last (a # obs))"
  proof -
    fix x assume "x \<in> set (tl (remdups_adj (a # obs)))"
    then have "x \<in> set (remdups_adj (a # obs))"
      by (metis list.sel(2) list.set_sel(2))
    then have "x \<in> set (a # obs)" by (simp only: remdups_adj_set)
    with assms sorted_wrt_le_last[of le "a # obs" x] show "le x (last (a # obs))" by blast
  qed
  with s show "sorted_wrt le (tl (remdups_adj (a # obs)) @ [last (a # obs)])"
    by (simp add: sorted_wrt_append)
  from s show "sorted_wrt le (tl (remdups_adj (a # obs)))" .
qed

lemma set_tl_remdups_adj: "set (tl (remdups_adj (a # obs))) \<subseteq> set obs"
proof -
  have "tl (remdups_adj (a # obs)) = remdups_adj (dropWhile (\<lambda>y. y = a) obs)"
    by (simp add: remdups_adj_Cons')
  then show ?thesis by (auto dest: set_dropWhileD)
qed
subsection \<open>The accumulator's token, and the end of a spool run\<close>

lemma read_map_Batch:
  "seq_tokens (map (\<lambda>b. Batch b flag) bs) = []" "end_tokens (map (\<lambda>b. Batch b flag) bs) = []"
  "cursor_tokens (map (\<lambda>b. Batch b flag) bs) = []"
  by (induction bs) simp_all

lemma transform_all_delivered:
  assumes "0 < bs"
  shows "lastSeq (snd (transform_all parse bs new_processor chunks))
       = (if batches_of (fst (transform_all parse bs new_processor chunks)) = [] then ''0''
          else seq (last (concat (batches_of (fst (transform_all parse bs new_processor chunks))))))"
proof -
  obtain e1 p1 where t: "transform_all parse bs new_processor chunks = (e1, p1)"
    by (cases "transform_all parse bs new_processor chunks")
  have b0: "length (buffer new_processor) < nat bs" using assms by (simp add: new_processor_def)
  note inv = transform_all_inv[OF assms b0 t]
  from inv have full: "list_all (\<lambda>b. length b = nat bs) (batches_of e1)" by simp
  from inv have ls: "lastSeq p1
      = (if batches_of e1 = [] then ''0'' else seq (last (last (batches_of e1))))"
    by (simp add: new_processor_def)
  show ?thesis
  proof (cases "batches_of e1 = []")
    case True
    with ls t show ?thesis by simp
  next
    case False
    then have "last (batches_of e1) \<in> set (batches_of e1)" by simp
    with full assms have "last (batches_of e1) \<noteq> []" by (auto simp: list_all_iff)
    with False have "last (concat (batches_of e1)) = last (last (batches_of e1))"
      by (rule last_concat_nonempty)
    with ls t False show ?thesis by simp
  qed
qed

lemma changeProcessor_end:
  assumes "0 < bs"
  shows "fst (changeProcessor parse bs chunks)
       = map (\<lambda>b. Batch b False) (batches_of (fst (changeProcessor parse bs chunks)))"
    and "lastSeq (snd (changeProcessor parse bs chunks))
       = (if parsed_records parse chunks = [] then ''0''
          else seq (last (parsed_records parse chunks)))"
proof -
  let ?recs = "parsed_records parse chunks"
  obtain e1 p1 where t: "transform_all parse bs new_processor chunks = (e1, p1)"
    by (cases "transform_all parse bs new_processor chunks")
  have b0: "length (buffer new_processor) < nat bs" using assms by (simp add: new_processor_def)
  note inv = transform_all_inv[OF assms b0 t]
  from inv have cat: "concat (batches_of e1) @ buffer p1 = ?recs" by (simp add: new_processor_def)
  from inv have only: "e1 = map (\<lambda>b. Batch b False) (batches_of e1)" by simp
  from transform_all_delivered[OF assms, of parse chunks] t
  have ls: "lastSeq p1 = (if batches_of e1 = [] then ''0'' else seq (last (concat (batches_of e1))))"
    by simp
  from inv have full: "list_all (\<lambda>b. length b = nat bs) (batches_of e1)" by simp
  have ne: "batches_of e1 \<noteq> [] \<Longrightarrow> concat (batches_of e1) \<noteq> []"
  proof -
    assume n: "batches_of e1 \<noteq> []"
    then have "hd (batches_of e1) \<in> set (batches_of e1)" by simp
    with full assms have "hd (batches_of e1) \<noteq> []" by (auto simp: list_all_iff)
    with n show ?thesis by (cases "batches_of e1") auto
  qed
  show "fst (changeProcessor parse bs chunks)
       = map (\<lambda>b. Batch b False) (batches_of (fst (changeProcessor parse bs chunks)))"
  proof (cases "buffer p1 = []")
    case True
    with t only show ?thesis by (simp add: changeProcessor_def flush_def)
  next
    case False
    with t have "fst (changeProcessor parse bs chunks) = e1 @ [Batch (buffer p1) False]"
      by (simp add: changeProcessor_def flush_def emit_def)
    with only show ?thesis by (simp add: batches_of_append)
  qed
  show "lastSeq (snd (changeProcessor parse bs chunks))
       = (if ?recs = [] then ''0'' else seq (last ?recs))"
  proof (cases "buffer p1 = []")
    case True
    with t have pp: "snd (changeProcessor parse bs chunks) = p1"
      by (simp add: changeProcessor_def flush_def)
    from True cat have c: "concat (batches_of e1) = ?recs" by simp
    show ?thesis
    proof (cases "batches_of e1 = []")
      case True
      with c ls pp show ?thesis by simp
    next
      case False
      with ne c have "?recs \<noteq> []" by simp
      with False c ls pp show ?thesis by simp
    qed
  next
    case False
    with t have pp: "lastSeq (snd (changeProcessor parse bs chunks)) = seq (last (buffer p1))"
      by (simp add: changeProcessor_def flush_def emit_def)
    from cat False have "?recs \<noteq> []" "last ?recs = last (buffer p1)"
      by (metis append_is_Nil_conv, metis last_appendR)
    with pp show ?thesis by simp
  qed
qed

lemma spool_streamed:
  "spool parse s opts now (Streamed chunks) =
     (ee (assign_opts (setDefaults s) (opts_or_empty opts)),
      Request now (spool_request (assign_opts (setDefaults s) (opts_or_empty opts)))
        # map (Emit (ee (assign_opts (setDefaults s) (opts_or_empty opts))))
            (fst (changeProcessor parse (batchSize (assign_opts (setDefaults s) (opts_or_empty opts)))
                    chunks))
        @ [SetTimeout 10,
           Emit (ee (assign_opts (setDefaults s) (opts_or_empty opts)))
             (End (lastSeq (snd (changeProcessor parse
                    (batchSize (assign_opts (setDefaults s) (opts_or_empty opts))) chunks))))],
      assign_opts (setDefaults s) (opts_or_empty opts))"
  by (simp add: spool_def Let_def split: prod.splits)

lemma emitted_map_Emit: "emitted (map (Emit e) evs) = evs"
  by (induction evs) simp_all

lemma spool_cursor:
  assumes "0 < batchSize (assign_opts (setDefaults s) (opts_or_empty opts))"
  shows "cursor_tokens (emitted (fst (snd (spool parse s opts now (Streamed chunks)))))
       = [if parsed_records parse chunks = [] then ''0''
          else seq (last (parsed_records parse chunks))]"
proof -
  let ?bs = "batchSize (assign_opts (setDefaults s) (opts_or_empty opts))"
  note e = changeProcessor_end[OF assms, of parse chunks]
  have "cursor_tokens (fst (changeProcessor parse ?bs chunks)) = []"
    by (subst e(1)) (rule read_map_Batch(3))
  then show ?thesis
    by (simp add: spool_streamed emitted_append emitted_map_Emit cursor_tokens_append e(2))
qed

text \<open>
  Claim C7, as amended. A pass of the polling loop leaves the cursor at the
  \<^verbatim>\<open>last_seq\<close> the server just returned, when there is a truthy one, and where it was
  otherwise. So over a run of \<open>start\<close> or \<open>get\<close> the \<^verbatim>\<open>seq\<close> events carry, in
  arrival order, the returned \<^verbatim>\<open>last_seq\<close> values (each of them one the server
  returned) wherever the value differs from the one before it, and \<^verbatim>\<open>end\<close> carries
  the latest of them, or the cursor the run began with when there was none. The session
  never compares tokens: the reported cursor is non-decreasing, in whatever reflexive
  order, when the cursor the run began with followed by the server's values is. The
  accumulator's \<open>lastSeq\<close> (batch size above zero) is at any point of the stream the token
  of the record delivered last, and \<^verbatim>\<open>'0'\<close> before the first batch. A run of \<open>spool\<close>
  with a batch size above zero publishes no \<^verbatim>\<open>seq\<close> event and one \<^verbatim>\<open>end\<close> event,
  which carries the token of the last record of the stream, or \<^verbatim>\<open>'0'\<close> for a stream
  without records, whatever the cursor; it leaves the cursor of the session alone.
\<close>

theorem cursor_follows_server:
  "since (fst (snd (iteratee cfg now s x))) = last (since s # last_seq_of x)
   \<and> seq_tokens (emitted (trace (doWhilst cfg now s script)))
       = tl (remdups_adj (since s
             # concat (map last_seq_of (take (consumed (doWhilst cfg now s script)) script))))
   \<and> set (seq_tokens (emitted (trace (doWhilst cfg now s script))))
       \<subseteq> set (concat (map last_seq_of script))
   \<and> end_tokens (emitted (trace (doWhilst cfg now s script)))
       = (if phase (doWhilst cfg now s script) = Ended
          then [last (since s
             # concat (map last_seq_of (take (consumed (doWhilst cfg now s script)) script)))]
          else [])
   \<and> ((\<forall>t. le t t)
        \<and> sorted_wrt le (since s
             # concat (map last_seq_of (take (consumed (doWhilst cfg now s script)) script)))
       \<longrightarrow> sorted_wrt le (cursor_tokens (emitted (trace (doWhilst cfg now s script)))))
   \<and> (0 < bs \<longrightarrow>
        lastSeq (snd (transform_all parse bs new_processor chunks))
          = (if batches_of (fst (transform_all parse bs new_processor chunks)) = [] then ''0''
             else seq (last (concat (batches_of (fst (transform_all parse bs new_processor chunks)))))))
   \<and> (0 < batchSize (assign_opts (setDefaults s0) (opts_or_empty opts)) \<longrightarrow>
        cursor_tokens (emitted (fst (snd (spool parse s0 opts now0 (Streamed chunks)))))
          = [if parsed_records parse chunks = [] then ''0''
             else seq (last (parsed_records parse chunks))])
   \<and> since (snd (snd (spool parse s0 opts now0 (Streamed chunks))))
       = since (assign_opts (setDefaults s0) (opts_or_empty opts))"
proof -
  let ?r = "doWhilst cfg now s script"
  let ?obs = "concat (map last_seq_of (take (consumed ?r) script))"
  note c = doWhilst_cursor[of cfg now s script]
  have a1: "since (fst (snd (iteratee cfg now s x))) = last (since s # last_seq_of x)"
    by (simp add: iteratee_emitted)
  from c have a2: "seq_tokens (emitted (trace ?r)) = tl (remdups_adj (since s # ?obs))" by blast
  have "set ?obs \<subseteq> set (concat (map last_seq_of script))"
    by (auto dest: in_set_takeD)
  with set_tl_remdups_adj[of "since s" ?obs] a2
  have a3: "set (seq_tokens (emitted (trace ?r))) \<subseteq> set (concat (map last_seq_of script))"
    by auto
  from c have a4: "end_tokens (emitted (trace ?r))
       = (if phase ?r = Ended then [last (since s # ?obs)] else [])" by blast
  from c have ct: "cursor_tokens (emitted (trace ?r))
       = seq_tokens (emitted (trace ?r)) @ end_tokens (emitted (trace ?r))" by blast
  have a5: "(\<forall>t. le t t) \<and> sorted_wrt le (since s # ?obs)
       \<longrightarrow> sorted_wrt le (cursor_tokens (emitted (trace ?r)))"
  proof
    assume h: "(\<forall>t. le t t) \<and> sorted_wrt le (since s # ?obs)"
    then have r: "\<forall>t. le t t" and so: "sorted_wrt le (since s # ?obs)" by blast+
    show "sorted_wrt le (cursor_tokens (emitted (trace ?r)))"
    proof (cases "phase ?r = Ended")
      case True
      with ct a2 a4 sorted_wrt_cursor(1)[OF r so] show ?thesis by simp
    next
      case False
      with ct a2 a4 sorted_wrt_cursor(2)[OF r so] show ?thesis by simp
    qed
  qed
  have a6: "0 < bs \<longrightarrow>
        lastSeq (snd (transform_all parse bs new_processor chunks))
          = (if batches_of (fst (transform_all parse bs new_processor chunks)) = [] then ''0''
             else seq (last (concat (batches_of (fst (transform_all parse bs new_processor chunks))))))"
    using transform_all_delivered[of bs parse chunks] by blast
  have a7: "0 < batchSize (assign_opts (setDefaults s0) (opts_or_empty opts)) \<longrightarrow>
        cursor_tokens (emitted (fst (snd (spool parse s0 opts now0 (Streamed chunks)))))
          = [if parsed_records parse chunks = [] then ''0''
             else seq (last (parsed_records parse chunks))]"
    using spool_cursor[of s0 opts parse now0 chunks] by blast
  have a8: "since (snd (snd (spool parse s0 opts now0 (Streamed chunks))))
       = since (assign_opts (setDefaults s0) (opts_or_empty opts))"
    by (simp add: spool_streamed)
  from a1 a2 a3 a4 a5 a6 a7 a8 show ?thesis by blast
qed
theorem cursor_follows_server_witness:
  "(\<forall>t. sample_order t t)
   \<and> consumed (snd (get sample_reader (Some (no_opts\<lparr>o_batchSize := Some 1\<rparr>)) 0
        [reply [sample_change ''1''] ''1'', reply [] ''2''])) = 2
   \<and> sorted_wrt sample_order [''now'', ''1'', ''2'']
   \<and> cursor_tokens (emitted (trace (snd (get sample_reader (Some (no_opts\<lparr>o_batchSize := Some 1\<rparr>)) 0
        [reply [sample_change ''1''] ''1'', reply [] ''2'']))))
       = [''1'', ''2'', ''2'']
   \<and> sorted_wrt sample_order
        (cursor_tokens (emitted (trace (snd (get sample_reader (Some (no_opts\<lparr>o_batchSize := Some 1\<rparr>)) 0
        [reply [sample_change ''1''] ''1'', reply [] ''2''])))))
   \<and> 0 < batchSize (assign_opts (setDefaults sample_reader) (opts_or_empty None))
   \<and> cursor_tokens (emitted (fst (snd (spool sample_parse sample_reader None 0
        (Streamed sample_stream))))) = [''3-c'']
   \<and> lastSeq (snd (transform_all sample_parse 2 new_processor sample_stream)) = ''2-b''"
proof -
  let ?cfg = "no_opts\<lparr>o_batchSize := Some 1\<rparr>"
  let ?s = "assign_opts (sample_reader\<lparr>stopOnEmptyChanges := True, started := True\<rparr>) ?cfg"
  let ?script = "[reply [sample_change ''1''] ''1'', reply [] ''2'']"
  have g: "snd (get sample_reader (Some ?cfg) 0 ?script) = doWhilst ?cfg 0 ?s ?script"
    by (simp add: get_def start_def opts_or_empty_def Let_def sample_defs setDefaults_def)
  have r: "\<forall>t. sample_order t t" by (simp add: sample_order_def)
  have n: "consumed (doWhilst ?cfg 0 ?s ?script) = 2"
    by (simp add: run_defs sample_defs Let_def)
  have si: "since ?s = ''now''" by (simp add: run_defs sample_defs)
  have obs: "concat (map last_seq_of (take 2 ?script)) = [''1'', ''2'']"
    by (simp add: last_seq_of_def returned_last_seq_def reply_def)
  have so: "sorted_wrt sample_order [''now'', ''1'', ''2'']" by (simp add: sample_order_def)
  have ct: "cursor_tokens (emitted (trace (doWhilst ?cfg 0 ?s ?script))) = [''1'', ''2'', ''2'']"
    by (simp add: run_defs sample_defs Let_def)
  have bp: "0 < batchSize (assign_opts (setDefaults sample_reader) (opts_or_empty None))"
    by (simp add: run_defs sample_defs)
  have recs: "parsed_records sample_parse sample_stream
       = [sample_change ''1-a'', sample_change ''2-b'', sample_change ''3-c'']"
    by (simp add: processor_defs List.map_filter_def)
  have tr: "fst (transform_all sample_parse 2 new_processor sample_stream)
       = [Batch [sample_change ''1-a'', sample_change ''2-b''] False]"
    by (simp add: processor_defs Let_def)
  note t = cursor_follows_server[where cfg = ?cfg and now = 0 and s = ?s and script = ?script
      and le = sample_order and bs = 2 and parse = sample_parse and chunks = sample_stream
      and ?s0.0 = sample_reader and opts = None and ?now0.0 = 0 and x = "reply [] ''2''"]
  from t have "(\<forall>t. sample_order t t)
        \<and> sorted_wrt sample_order (since ?s
             # concat (map last_seq_of (take (consumed (doWhilst ?cfg 0 ?s ?script)) ?script)))
       \<longrightarrow> sorted_wrt sample_order (cursor_tokens (emitted (trace (doWhilst ?cfg 0 ?s ?script))))"
    by blast
  with r so have m: "sorted_wrt sample_order (cursor_tokens (emitted (trace (doWhilst ?cfg 0 ?s ?script))))"
    by (simp only: n si obs) simp
  from t bp have "cursor_tokens (emitted (fst (snd (spool sample_parse sample_reader None 0
        (Streamed sample_stream)))))
          = [if parsed_records sample_parse sample_stream = [] then ''0''
             else seq (last (parsed_records sample_parse sample_stream))]"
    by blast
  then have sp: "cursor_tokens (emitted (fst (snd (spool sample_parse sample_reader None 0
        (Streamed sample_stream))))) = [''3-c'']"
    by (simp add: recs sample_change_def)
  from t have "(0::int) < 2 \<longrightarrow>
        lastSeq (snd (transform_all sample_parse 2 new_processor sample_stream))
          = (if batches_of (fst (transform_all sample_parse 2 new_processor sample_stream)) = [] then ''0''
             else seq (last (concat (batches_of (fst (transform_all sample_parse 2 new_processor sample_stream))))))"
    by blast
  then have ac: "lastSeq (snd (transform_all sample_parse 2 new_processor sample_stream)) = ''2-b''"
    by (simp add: tr sample_change_def)
  from r n so ct m bp sp ac show ?thesis by (simp only: g) simp
qed

text \<open>
  Against claim C7 as it was stated: a run that starts from the cursor \<^verbatim>\<open>1\<close> and is
  answered first with \<^verbatim>\<open>last_seq\<close> \<^verbatim>\<open>2\<close> and then with \<^verbatim>\<open>1\<close> reports the cursor
  \<^verbatim>\<open>2\<close>, then \<^verbatim>\<open>1\<close> again, and ends on \<^verbatim>\<open>1\<close>: it goes back to the value it
  started from. A run whose first request fails fatally ends on the cursor
  \<^verbatim>\<open>now\<close> it began with, though the server returned no \<^verbatim>\<open>last_seq\<close> at all. And a
  run of \<open>spool\<close> from the cursor \<^verbatim>\<open>5\<close> whose stream holds no record ends on
  \<^verbatim>\<open>'0'\<close>, the token of no record, while the cursor stays \<^verbatim>\<open>5\<close>.
\<close>

theorem cursor_regress_counterexample:
  "since (assign_opts (sample_reader\<lparr>stopOnEmptyChanges := True, started := True\<rparr>)
            (no_opts\<lparr>o_since := Some ''1'', o_batchSize := Some 1\<rparr>)) = ''1''
   \<and> cursor_tokens (emitted (trace (snd (get sample_reader
          (Some (no_opts\<lparr>o_since := Some ''1'', o_batchSize := Some 1\<rparr>)) 0
          [reply [sample_change ''2''] ''2'', reply [] ''1'']))))
       = [''2'', ''1'', ''1'']
   \<and> \<not> sorted_wrt sample_order [''1'', ''2'', ''1'', ''1'']
   \<and> concat (map last_seq_of [failure (Some 401)]) = []
   \<and> end_tokens (emitted (trace (snd (start sample_reader None 0 [failure (Some 401)]))))
       = [''now'']
   \<and> parsed_records sample_parse [''{results:['', '']}''] = []
   \<and> end_tokens (emitted (fst (snd (spool sample_parse sample_reader
          (Some (no_opts\<lparr>o_since := Some ''5''\<rparr>)) 0 (Streamed [''{results:['', '']}''])))))
       = [''0'']
   \<and> since (snd (snd (spool sample_parse sample_reader
          (Some (no_opts\<lparr>o_since := Some ''5''\<rparr>)) 0 (Streamed [''{results:['', '']}'']))))
       = ''5''"
  by (simp add: run_defs sample_defs sample_order_def spool_def processor_defs List.map_filter_def
      Let_def)
subsection \<open>Starting twice, and spooling\<close>

text \<open>
  Claim C8, as amended. On a session that is already started, \<open>start\<close> changes nothing,
  does nothing and returns the emitter the session has; \<open>get\<close> returns that emitter too
  and begins no second run, but it has set \<open>stopOnEmptyChanges\<close> before it reaches the
  guard, and changes nothing else.
\<close>

theorem restart_is_attach:
  "started s \<Longrightarrow>
     start s opts now script
       = (ee s, \<lparr>trace = [], session_after = s, phase = Attached, consumed = 0\<rparr>)
   \<and> get s opts now script
       = (ee s, \<lparr>trace = [], session_after = s\<lparr>stopOnEmptyChanges := True\<rparr>,
                 phase = Attached, consumed = 0\<rparr>)"
  by (simp add: start_def get_def)

theorem restart_is_attach_witness:
  "started (session_after (snd (start sample_reader None 0 [])))
   \<and> phase (snd (start sample_reader None 0 [])) = Awaiting_response
   \<and> fst (start (session_after (snd (start sample_reader None 0 []))) None 7 [reply [] ''5''])
       = fst (start sample_reader None 0 [])
   \<and> session_after (snd (start (session_after (snd (start sample_reader None 0 []))) None 7
        [reply [] ''5'']))
       = session_after (snd (start sample_reader None 0 []))
   \<and> trace (snd (get (session_after (snd (start sample_reader None 0 []))) None 7
        [reply [] ''5''])) = []"
proof -
  let ?s = "session_after (snd (start sample_reader None 0 []))"
  have h: "started ?s" by (simp add: run_defs sample_defs Let_def)
  have p: "phase (snd (start sample_reader None 0 [])) = Awaiting_response"
    by (simp add: run_defs sample_defs Let_def)
  have e: "ee ?s = fst (start sample_reader None 0 [])"
    by (simp add: run_defs sample_defs Let_def)
  from restart_is_attach[OF h, of None 7 "[reply [] ''5'']"] h p e show ?thesis by simp
qed

text \<open>
  Against claim C8 as it was stated: on a session whose run is under way, unbounded,
  \<open>get\<close> leaves the session with \<open>stopOnEmptyChanges\<close> set.
\<close>

theorem get_on_started_counterexample:
  "started (session_after (snd (start sample_reader None 0 [])))
   \<and> stopOnEmptyChanges (session_after (snd (start sample_reader None 0 []))) = False
   \<and> stopOnEmptyChanges
        (session_after (snd (get (session_after (snd (start sample_reader None 0 []))) None 7 [])))
       = True
   \<and> session_after (snd (get (session_after (snd (start sample_reader None 0 []))) None 7 []))
       \<noteq> session_after (snd (start sample_reader None 0 []))"
proof -
  let ?s = "session_after (snd (start sample_reader None 0 []))"
  have a: "started ?s" "stopOnEmptyChanges ?s = False"
    by (simp_all add: run_defs sample_defs Let_def)
  have b: "session_after (snd (get ?s None 7 [])) = ?s\<lparr>stopOnEmptyChanges := True\<rparr>"
    using a(1) by (simp add: get_def start_def)
  have c: "stopOnEmptyChanges (session_after (snd (get ?s None 7 []))) = True"
    by (simp only: b) simp
  from a(2) c have "session_after (snd (get ?s None 7 [])) \<noteq> ?s" by metis
  with a c show ?thesis by blast
qed

text \<open>
  Claim C10. When the request of \<open>spool\<close> is rejected, so that there is no response
  stream, \<open>spool\<close> has issued its one request and publishes nothing at all: no
  \<^verbatim>\<open>error\<close> event and no \<^verbatim>\<open>end\<close> event, on the returned emitter or any other.
\<close>

theorem spool_rejection_is_silent:
  "fst (snd (spool parse s opts now (Stream_rejected err)))
     = [Request now (spool_request (assign_opts (setDefaults s) (opts_or_empty opts)))]
   \<and> emitted (fst (snd (spool parse s opts now (Stream_rejected err)))) = []
   \<and> events_on (fst (spool parse s opts now (Stream_rejected err)))
        (fst (snd (spool parse s opts now (Stream_rejected err)))) = []
   \<and> errors_of (emitted (fst (snd (spool parse s opts now (Stream_rejected err))))) = []
   \<and> end_tokens (emitted (fst (snd (spool parse s opts now (Stream_rejected err))))) = []"
  by (simp add: spool_def Let_def)

theorem spool_rejection_is_silent_witness:
  "emitted (fst (snd (spool sample_parse sample_reader None 0
       (Stream_rejected \<lparr>response_status = Some 401, reason = None, statusCode = None\<rparr>)))) = []
   \<and> end_tokens (emitted (fst (snd (spool sample_parse sample_reader None 0
       (Streamed sample_stream))))) = [''3-c'']"
proof -
  have "end_tokens (emitted (fst (snd (spool sample_parse sample_reader None 0
       (Streamed sample_stream))))) = [''3-c'']"
    by (simp add: spool_def processor_defs sample_defs run_defs Let_def)
  with spool_rejection_is_silent[of sample_parse sample_reader None 0
      "\<lparr>response_status = Some 401, reason = None, statusCode = None\<rparr>"]
  show ?thesis by blast
qed

end
